theory Spec2Isabelle
  imports Main "HOL-Library.Monad_Syntax"
begin

section \<open>Data model (models/types.ts)\<close>

text \<open>
  Coordinates are TypeScript numbers. The engine only ever builds them from integer
  literals and integer offsets, so they are modelled as unbounded integers; the model
  is exact for integers of magnitude below \<open>2^53\<close>. The fields \<open>x\<close>, \<open>y\<close>, \<open>z\<close> of
  \<open>Position\<close> carry a \<open>p\<close> prefix so that the letters stay free for variables.
\<close>

record position =
  px :: int
  py :: int
  pz :: int

datatype PieceColor = WHITE | BLACK

datatype PieceType = PAWN | ROOK | KNIGHT | BISHOP | QUEEN | KING

text \<open>
  \<open>hasMoved?: boolean\<close> is an optional property: \<open>None\<close> is a piece object without
  the property, \<open>Some b\<close> one that carries it with value \<open>b\<close>.
\<close>

record piece =
  ptype :: PieceType
  color :: PieceColor
  position :: position
  hasMoved :: "bool option"

datatype GameState = ACTIVE | CHECK | CHECKMATE | STALEMATE

text \<open>
  A \<open>Move\<close> as \<open>makeMove\<close> builds it (\<open>from\<close>, \<open>to\<close>, \<open>piece\<close>, \<open>capturedPiece\<close>); the
  optional promotion fields are never written or read by the engine.
\<close>

record move =
  mfrom :: position
  mto :: position
  mpiece :: piece
  capturedPiece :: "piece option"

text \<open>
  \<open>Board = Map<string, Piece>\<close>. A JavaScript \<open>Map\<close> iterates in insertion order,
  \<open>set\<close> on a present key replaces the value in place, \<open>set\<close> on an absent key appends,
  \<open>delete\<close> removes the entry: an association list with these three operations.
  Every entry is a piece value of its own (no piece object is stored under two keys, as
  in every board built by \<open>addPiece\<close> and \<open>movePiece\<close>).
\<close>

type_synonym board = "(string \<times> piece) list"

record game =
  board :: board
  currentTurn :: PieceColor
  moves :: "move list"
  state :: GameState

subsection \<open>The JavaScript Map operations\<close>

fun mapGet :: "('k \<times> 'v) list \<Rightarrow> 'k \<Rightarrow> 'v option" where
  "mapGet [] k = None"
| "mapGet ((k', v) # es) k = (if k' = k then Some v else mapGet es k)"

fun mapSet :: "('k \<times> 'v) list \<Rightarrow> 'k \<Rightarrow> 'v \<Rightarrow> ('k \<times> 'v) list" where
  "mapSet [] k v = [(k, v)]"
| "mapSet ((k', v') # es) k v = (if k' = k then (k, v) # es else (k', v') # mapSet es k v)"

fun mapDelete :: "('k \<times> 'v) list \<Rightarrow> 'k \<Rightarrow> ('k \<times> 'v) list" where
  "mapDelete [] k = []"
| "mapDelete ((k', v') # es) k = (if k' = k then mapDelete es k else (k', v') # mapDelete es k)"

subsection \<open>Decimal rendering of numbers in template strings\<close>

definition digitChar :: "nat \<Rightarrow> char" where
  "digitChar n = char_of (48 + n)"

function showNat :: "nat \<Rightarrow> string" where
  "showNat n = (if n < 10 then [digitChar n] else showNat (n div 10) @ [digitChar (n mod 10)])"
  by pat_completeness auto
termination
  by (relation "measure id") auto

declare showNat.simps [simp del]

definition showInt :: "int \<Rightarrow> string" where
  "showInt i = (if i < 0 then CHR ''-'' # showNat (nat (- i)) else showNat (nat i))"

subsection \<open>Positions\<close>

definition positionToKey :: "position \<Rightarrow> string" where
  "positionToKey p = showInt (px p) @ '','' @ showInt (py p) @ '','' @ showInt (pz p)"

definition isValidPosition :: "position \<Rightarrow> bool" where
  "isValidPosition p \<longleftrightarrow>
     px p \<ge> 1 \<and> px p \<le> 8 \<and> py p \<ge> 1 \<and> py p \<le> 8 \<and> pz p \<ge> 1 \<and> pz p \<le> 8"

definition arePositionsEqual :: "position \<Rightarrow> position \<Rightarrow> bool" where
  "arePositionsEqual pos1 pos2 \<longleftrightarrow> px pos1 = px pos2 \<and> py pos1 = py pos2 \<and> pz pos1 = pz pos2"

section \<open>Board (models/board.ts)\<close>

definition createEmptyBoard :: board where
  "createEmptyBoard = []"

definition addPiece :: "board \<Rightarrow> piece \<Rightarrow> board" where
  "addPiece b pc = mapSet b (positionToKey (position pc)) pc"

definition getPiece :: "board \<Rightarrow> position \<Rightarrow> piece option" where
  "getPiece b pos = mapGet b (positionToKey pos)"

text \<open>\<open>removePiece\<close> returns the board after the call and the piece it returns.\<close>

definition removePiece :: "board \<Rightarrow> position \<Rightarrow> board \<times> piece option" where
  "removePiece b pos =
     (let key = positionToKey pos; pc = mapGet b key
      in if pc \<noteq> None then (mapDelete b key, pc) else (b, pc))"

text \<open>
  The mutation \<open>movePiece\<close> performs on the piece object: the position is overwritten,
  and \<open>hasMoved\<close> is set only when the object has that property (\<open>'hasMoved' in piece\<close>).
\<close>

definition relocated :: "piece \<Rightarrow> position \<Rightarrow> piece" where
  "relocated pc to =
     pc\<lparr>position := to, hasMoved := (if hasMoved pc \<noteq> None then Some True else hasMoved pc)\<rparr>"

definition movePiece :: "board \<Rightarrow> position \<Rightarrow> position \<Rightarrow> board \<times> piece option" where
  "movePiece b from to =
     (case removePiece b from of
        (b1, Some pc) \<Rightarrow>
          (let captured = getPiece b1 to;
               b2 = (if captured \<noteq> None then fst (removePiece b1 to) else b1)
           in (addPiece b2 (relocated pc to), captured))
      | (b1, None) \<Rightarrow> (b1, None))"

definition getPiecesByColor :: "board \<Rightarrow> PieceColor \<Rightarrow> piece list" where
  "getPiecesByColor b c = filter (\<lambda>pc. color pc = c) (map snd b)"

text \<open>
  \<open>setupBaseLayer\<close> takes the layer \<open>z\<close> and never reads it: every piece literal has
  \<open>z: 1\<close>. Knights, bishops and the queen are created without a \<open>hasMoved\<close> property.
\<close>

definition mkPiece :: "PieceType \<Rightarrow> PieceColor \<Rightarrow> int \<Rightarrow> int \<Rightarrow> int \<Rightarrow> bool option \<Rightarrow> piece" where
  "mkPiece t c a b d h =
     \<lparr>ptype = t, color = c, position = \<lparr>px = a, py = b, pz = d\<rparr>, hasMoved = h\<rparr>"

definition setupBaseLayer :: "board \<Rightarrow> int \<Rightarrow> PieceColor \<Rightarrow> board" where
  "setupBaseLayer b layer c =
     (let backRowY = (if c = WHITE then 1 else 8);
          pawnRowY = (if c = WHITE then 2 else 7);
          b = foldl (\<lambda>b i. addPiece b (mkPiece PAWN c i pawnRowY 1 (Some False))) b [1, 2, 3, 4, 5, 6, 7, 8];
          b = addPiece b (mkPiece ROOK c 1 backRowY 1 (Some False));
          b = addPiece b (mkPiece ROOK c 8 backRowY 1 (Some False));
          b = addPiece b (mkPiece KNIGHT c 2 backRowY 1 None);
          b = addPiece b (mkPiece KNIGHT c 7 backRowY 1 None);
          b = addPiece b (mkPiece BISHOP c 3 backRowY 1 None);
          b = addPiece b (mkPiece BISHOP c 6 backRowY 1 None);
          b = addPiece b (mkPiece QUEEN c 4 backRowY 1 None)
      in addPiece b (mkPiece KING c 5 backRowY 1 (Some False)))"

definition setupBoard :: board where
  "setupBoard = setupBaseLayer (setupBaseLayer createEmptyBoard 1 WHITE) 8 BLACK"

section \<open>Movement (models/movement.ts)\<close>

definition stepBy :: "position \<Rightarrow> position \<Rightarrow> position" where
  "stepBy pos dir = \<lparr>px = px pos + px dir, py = py pos + py dir, pz = pz pos + pz dir\<rparr>"

definition mkPos :: "int \<Rightarrow> int \<Rightarrow> int \<Rightarrow> position" where
  "mkPos a b d = \<lparr>px = a, py = b, pz = d\<rparr>"

text \<open>
  The \<open>while (true)\<close> loop of \<open>getLinearMoves\<close> for one direction. It pushes onto the
  shared \<open>moves\<close> array. With the zero direction on an empty in-bounds square the loop
  never ends, so the result is an option: \<open>None\<close> is a walk that does not return.
\<close>

partial_function (option) walkRay ::
  "position \<Rightarrow> position \<Rightarrow> board \<Rightarrow> PieceColor \<Rightarrow> position list \<Rightarrow> position list option" where
  "walkRay currentPos dir b pieceColor mvs =
     (let nextPos = stepBy currentPos dir
      in if \<not> isValidPosition nextPos then Some mvs
         else case getPiece b nextPos of
                None \<Rightarrow> walkRay nextPos dir b pieceColor (mvs @ [nextPos])
              | Some pieceAtPos \<Rightarrow>
                  if color pieceAtPos \<noteq> pieceColor then Some (mvs @ [nextPos]) else Some mvs)"

fun linearLoop ::
  "position \<Rightarrow> position list \<Rightarrow> board \<Rightarrow> PieceColor \<Rightarrow> position list \<Rightarrow> position list option" where
  "linearLoop start [] b pieceColor mvs = Some mvs"
| "linearLoop start (dir # dirs) b pieceColor mvs =
     (case walkRay start dir b pieceColor mvs of
        None \<Rightarrow> None
      | Some mvs' \<Rightarrow> linearLoop start dirs b pieceColor mvs')"

definition getLinearMoves ::
  "position \<Rightarrow> position list \<Rightarrow> board \<Rightarrow> PieceColor \<Rightarrow> position list option" where
  "getLinearMoves start directions b pieceColor = linearLoop start directions b pieceColor []"

text \<open>An opponent of \<open>c\<close> stands on \<open>pos\<close> (the test \<open>pieceAtPos && pieceAtPos.color !== color\<close>).\<close>

definition opponentAt :: "board \<Rightarrow> PieceColor \<Rightarrow> position \<Rightarrow> bool" where
  "opponentAt b c pos = (case getPiece b pos of None \<Rightarrow> False | Some q \<Rightarrow> color q \<noteq> c)"

text \<open>\<open>pos\<close> is empty or holds an opponent (\<open>!pieceAtNewPos || pieceAtNewPos.color !== color\<close>).\<close>

definition freeOrOpponent :: "board \<Rightarrow> PieceColor \<Rightarrow> position \<Rightarrow> bool" where
  "freeOrOpponent b c pos = (case getPiece b pos of None \<Rightarrow> True | Some q \<Rightarrow> color q \<noteq> c)"

text \<open>
  \<open>!piece.hasMoved\<close> holds for \<open>false\<close> and for a missing property alike, so the double
  step is tried unless \<open>hasMoved\<close> is \<open>true\<close>.
\<close>

definition pawnDirection :: "PieceColor \<Rightarrow> int" where
  "pawnDirection c = (if c = WHITE then 1 else - 1)"

definition getPawnMoves :: "piece \<Rightarrow> board \<Rightarrow> position list" where
  "getPawnMoves pc b =
     (let x = px (position pc); y = py (position pc); z = pz (position pc);
          direction = pawnDirection (color pc);
          forwardPos = mkPos x (y + direction) z;
          doubleMove = mkPos x (y + 2 * direction) z;
          forward =
            (if isValidPosition forwardPos \<and> getPiece b forwardPos = None
             then forwardPos #
                  (if hasMoved pc \<noteq> Some True
                   then (if isValidPosition doubleMove \<and> getPiece b doubleMove = None
                         then [doubleMove] else [])
                   else [])
             else []);
          capturePositions = [mkPos (x - 1) (y + direction) z, mkPos (x + 1) (y + direction) z];
          captures = filter (\<lambda>pos. isValidPosition pos \<and> opponentAt b (color pc) pos) capturePositions;
          upPos = mkPos x y (z + direction);
          up = (if isValidPosition upPos \<and> getPiece b upPos = None then [upPos] else []);
          diagonalCaptures =
            [mkPos (x - 1) (y + direction) (z + 1), mkPos (x + 1) (y + direction) (z + 1),
             mkPos (x - 1) (y + direction) (z - 1), mkPos (x + 1) (y + direction) (z - 1)];
          diagonals = filter (\<lambda>pos. isValidPosition pos \<and> opponentAt b (color pc) pos) diagonalCaptures
      in forward @ captures @ up @ diagonals)"

definition rookDirections :: "position list" where
  "rookDirections =
     [mkPos 1 0 0, mkPos (- 1) 0 0, mkPos 0 1 0, mkPos 0 (- 1) 0, mkPos 0 0 1, mkPos 0 0 (- 1)]"

definition getRookMoves :: "piece \<Rightarrow> board \<Rightarrow> position list option" where
  "getRookMoves pc b = getLinearMoves (position pc) rookDirections b (color pc)"

definition knightOffsets :: "position list" where
  "knightOffsets =
     [mkPos 1 2 0, mkPos 2 1 0, mkPos (- 1) 2 0, mkPos (- 2) 1 0,
      mkPos 1 (- 2) 0, mkPos 2 (- 1) 0, mkPos (- 1) (- 2) 0, mkPos (- 2) (- 1) 0,
      mkPos 1 0 2, mkPos 2 0 1, mkPos (- 1) 0 2, mkPos (- 2) 0 1,
      mkPos 1 0 (- 2), mkPos 2 0 (- 1), mkPos (- 1) 0 (- 2), mkPos (- 2) 0 (- 1),
      mkPos 0 1 2, mkPos 0 2 1, mkPos 0 (- 1) 2, mkPos 0 (- 2) 1,
      mkPos 0 1 (- 2), mkPos 0 2 (- 1), mkPos 0 (- 1) (- 2), mkPos 0 (- 2) (- 1)]"

definition getKnightMoves :: "piece \<Rightarrow> board \<Rightarrow> position list" where
  "getKnightMoves pc b =
     filter (\<lambda>newPos. isValidPosition newPos \<and> freeOrOpponent b (color pc) newPos)
       (map (stepBy (position pc)) knightOffsets)"

definition bishopDirections :: "position list" where
  "bishopDirections =
     [mkPos 1 1 0, mkPos 1 (- 1) 0, mkPos (- 1) 1 0, mkPos (- 1) (- 1) 0,
      mkPos 1 0 1, mkPos 1 0 (- 1), mkPos (- 1) 0 1, mkPos (- 1) 0 (- 1),
      mkPos 0 1 1, mkPos 0 1 (- 1), mkPos 0 (- 1) 1, mkPos 0 (- 1) (- 1),
      mkPos 1 1 1, mkPos 1 1 (- 1), mkPos 1 (- 1) 1, mkPos 1 (- 1) (- 1),
      mkPos (- 1) 1 1, mkPos (- 1) 1 (- 1), mkPos (- 1) (- 1) 1, mkPos (- 1) (- 1) (- 1)]"

definition getBishopMoves :: "piece \<Rightarrow> board \<Rightarrow> position list option" where
  "getBishopMoves pc b = getLinearMoves (position pc) bishopDirections b (color pc)"

definition getQueenMoves :: "piece \<Rightarrow> board \<Rightarrow> position list option" where
  "getQueenMoves pc b =
     do { r \<leftarrow> getRookMoves pc b; d \<leftarrow> getBishopMoves pc b; Some (r @ d) }"

text \<open>The three nested loops of \<open>getKingMoves\<close>, \<open>dx\<close> outermost, skipping the zero offset.\<close>

definition kingOffsets :: "position list" where
  "kingOffsets =
     concat (map (\<lambda>dx. concat (map (\<lambda>dy. concat (map (\<lambda>dz.
         if dx = 0 \<and> dy = 0 \<and> dz = 0 then [] else [mkPos dx dy dz])
       [- 1, 0, 1])) [- 1, 0, 1])) [- 1, 0, 1])"

definition getKingMoves :: "piece \<Rightarrow> board \<Rightarrow> position list" where
  "getKingMoves pc b =
     filter (\<lambda>newPos. isValidPosition newPos \<and> freeOrOpponent b (color pc) newPos)
       (map (stepBy (position pc)) kingOffsets)"

text \<open>The \<open>default\<close> branch of the switch is unreachable for a value of the enum.\<close>

definition getValidMoves :: "piece \<Rightarrow> board \<Rightarrow> position list option" where
  "getValidMoves pc b =
     (case ptype pc of
        PAWN \<Rightarrow> Some (getPawnMoves pc b)
      | ROOK \<Rightarrow> getRookMoves pc b
      | KNIGHT \<Rightarrow> Some (getKnightMoves pc b)
      | BISHOP \<Rightarrow> getBishopMoves pc b
      | QUEEN \<Rightarrow> getQueenMoves pc b
      | KING \<Rightarrow> Some (getKingMoves pc b))"

definition isValidMove :: "piece \<Rightarrow> position \<Rightarrow> board \<Rightarrow> bool option" where
  "isValidMove pc targetPos b =
     do { validMoves \<leftarrow> getValidMoves pc b;
          Some (list_ex (\<lambda>pos. px pos = px targetPos \<and> py pos = py targetPos \<and> pz pos = pz targetPos)
                  validMoves) }"

section \<open>Game (models/game.ts)\<close>

definition createGame :: game where
  "createGame = \<lparr>board = setupBoard, currentTurn = WHITE, moves = [], state = ACTIVE\<rparr>"

definition opponentOf :: "PieceColor \<Rightarrow> PieceColor" where
  "opponentOf c = (if c = WHITE then BLACK else WHITE)"

definition findKing :: "board \<Rightarrow> PieceColor \<Rightarrow> piece option" where
  "findKing b c = find (\<lambda>pc. ptype pc = KING) (getPiecesByColor b c)"

text \<open>The loop of \<open>isKingInCheck\<close> over the opponent's pieces, with its early return.\<close>

fun attackLoop :: "piece list \<Rightarrow> board \<Rightarrow> piece \<Rightarrow> bool option" where
  "attackLoop [] b king = Some False"
| "attackLoop (pc # pcs) b king =
     do { validMoves \<leftarrow> getValidMoves pc b;
          if list_ex (\<lambda>pos. arePositionsEqual pos (position king)) validMoves then Some True
          else attackLoop pcs b king }"

definition isKingInCheck :: "board \<Rightarrow> PieceColor \<Rightarrow> bool option" where
  "isKingInCheck b kingColor =
     (case findKing b kingColor of
        None \<Rightarrow> Some False
      | Some king \<Rightarrow> attackLoop (getPiecesByColor b (opponentOf kingColor)) b king)"

fun mobilityLoop :: "piece list \<Rightarrow> board \<Rightarrow> bool option" where
  "mobilityLoop [] b = Some False"
| "mobilityLoop (pc # pcs) b =
     do { validMoves \<leftarrow> getValidMoves pc b;
          if length validMoves > 0 then Some True else mobilityLoop pcs b }"

definition hasValidMoves :: "game \<Rightarrow> PieceColor \<Rightarrow> bool option" where
  "hasValidMoves g c = mobilityLoop (getPiecesByColor (board g) c) (board g)"

definition updateGameState :: "game \<Rightarrow> game option" where
  "updateGameState g =
     do { kingInCheck \<leftarrow> isKingInCheck (board g) (currentTurn g);
          hasMovesAvailable \<leftarrow> hasValidMoves g (currentTurn g);
          Some (g\<lparr>state :=
                  (if kingInCheck then (if hasMovesAvailable then CHECK else CHECKMATE)
                   else (if hasMovesAvailable then ACTIVE else STALEMATE))\<rparr>) }"

text \<open>
  \<open>makeMove\<close> mutates the game and returns a boolean: the model returns both, and
  \<open>None\<close> when the call does not return. \<open>movePiece\<close> mutates the piece object that
  \<open>piece\<close> refers to, so the snapshot \<open>{ ...piece, position: to }\<close> is the relocated
  piece. \<open>capturedPiece\<close> is read before \<open>movePiece\<close>; it is the mover's own object
  when \<open>from\<close> and \<open>to\<close> have the same key, and then shows the mutation too.
\<close>

definition makeMove :: "game \<Rightarrow> position \<Rightarrow> position \<Rightarrow> (bool \<times> game) option" where
  "makeMove g from to =
     (if state g = CHECKMATE \<or> state g = STALEMATE then Some (False, g)
      else case getPiece (board g) from of
        None \<Rightarrow> Some (False, g)
      | Some pc \<Rightarrow>
          if color pc \<noteq> currentTurn g then Some (False, g)
          else do {
            valid \<leftarrow> isValidMove pc to (board g);
            if \<not> valid then Some (False, g)
            else do {
              let captured = (if positionToKey from = positionToKey to then Some (relocated pc to)
                              else getPiece (board g) to);
              let b' = fst (movePiece (board g) from to);
              let mv = \<lparr>mfrom = from, mto = to, mpiece = relocated pc to, capturedPiece = captured\<rparr>;
              let g1 = g\<lparr>board := b', moves := moves g @ [mv],
                         currentTurn := (if currentTurn g = WHITE then BLACK else WHITE)\<rparr>;
              g2 \<leftarrow> updateGameState g1;
              Some (True, g2) } })"

definition getValidMovesForPosition :: "game \<Rightarrow> position \<Rightarrow> position list option" where
  "getValidMovesForPosition g pos =
     (case getPiece (board g) pos of
        None \<Rightarrow> Some []
      | Some pc \<Rightarrow> if color pc \<noteq> currentTurn g then Some [] else getValidMoves pc (board g))"

text \<open>A sequence of \<open>makeMove\<close> calls, every one of which has to return \<open>true\<close>.\<close>

fun playMoves :: "game \<Rightarrow> (position \<times> position) list \<Rightarrow> game option" where
  "playMoves g [] = Some g"
| "playMoves g ((from, to) # rest) =
     (case makeMove g from to of
        Some (True, g') \<Rightarrow> playMoves g' rest
      | _ \<Rightarrow> None)"

subsection \<open>Algebraic notation\<close>

text \<open>
  JavaScript strings are modelled as \<open>string\<close>: sequences of code units below 256.
  \<open>upperCode c\<close> is \<open>c.toUpperCase().charCodeAt(0)\<close> for such a code unit: the ASCII
  and Latin-1 small letters move down by 32, sharp s becomes \<open>SS\<close>, y with diaeresis
  and the micro sign leave Latin-1, everything else is unchanged.
\<close>

definition upperCode :: "char \<Rightarrow> int" where
  "upperCode c =
     (let n = of_char c in
      if 97 \<le> n \<and> n \<le> 122 then n - 32
      else if n = 181 then 924
      else if n = 223 then 83
      else if 224 \<le> n \<and> n \<le> 254 \<and> n \<noteq> 247 then n - 32
      else if n = 255 then 376
      else n)"

definition isStrWhiteSpace :: "char \<Rightarrow> bool" where
  "isStrWhiteSpace c = ((of_char c :: nat) \<in> {9, 10, 11, 12, 13, 32, 160})"

definition radixDigit :: "nat \<Rightarrow> char \<Rightarrow> nat option" where
  "radixDigit radix c =
     (let n = (of_char c :: nat);
          v = (if 48 \<le> n \<and> n \<le> 57 then Some (n - 48)
               else if 97 \<le> n \<and> n \<le> 122 then Some (n - 87)
               else if 65 \<le> n \<and> n \<le> 90 then Some (n - 55)
               else None)
      in case v of None \<Rightarrow> None | Some d \<Rightarrow> if d < radix then Some d else None)"

definition digitsValue :: "nat \<Rightarrow> string \<Rightarrow> int" where
  "digitsValue radix ds = foldl (\<lambda>acc c. acc * int radix + (case radixDigit radix c of Some d \<Rightarrow> int d | None \<Rightarrow> 0)) 0 ds"

text \<open>
  \<open>parseInt(s)\<close> without a radix: leading white space is skipped, then an optional
  sign, then an optional \<open>0x\<close>/\<open>0X\<close> prefix that selects radix 16, then the longest run
  of digits; no digit at all gives \<open>NaN\<close> (\<open>None\<close>). The value is exact below \<open>2^53\<close>;
  a longer run of digits is a larger number in JavaScript and in the model alike.
\<close>

definition parseInt :: "string \<Rightarrow> int option" where
  "parseInt s =
     (let s1 = dropWhile isStrWhiteSpace s;
          sign = (case s1 of c # _ \<Rightarrow> if c = CHR ''-'' then - 1 else 1 | [] \<Rightarrow> (1 :: int));
          s2 = (case s1 of c # r \<Rightarrow> if c = CHR ''-'' \<or> c = CHR ''+'' then r else s1 | [] \<Rightarrow> s1);
          hex = (case s2 of c # d # _ \<Rightarrow> c = CHR ''0'' \<and> (d = CHR ''x'' \<or> d = CHR ''X'') | _ \<Rightarrow> False);
          radix = (if hex then 16 else 10);
          s3 = (if hex then drop 2 s2 else s2);
          ds = takeWhile (\<lambda>c. radixDigit radix c \<noteq> None) s3
      in if ds = [] then None else Some (sign * digitsValue radix ds))"

text \<open>
  \<open>String.fromCharCode\<close> keeps the code unit; the model is exact while the unit is
  below 256, which covers every in-bounds file.
\<close>

definition positionToNotation :: "position \<Rightarrow> string" where
  "positionToNotation pos = char_of (65 + px pos - 1) # showInt (py pos) @ showInt (pz pos)"

definition notationToPosition :: "string \<Rightarrow> position option" where
  "notationToPosition ntn =
     (if length ntn < 3 then None
      else let x = upperCode (ntn ! 0) - 65 + 1;
               y = parseInt [ntn ! 1];
               z = parseInt (drop 2 ntn)
           in case (y, z) of
                (Some yv, Some zv) \<Rightarrow>
                  if x < 1 \<or> x > 8 \<or> yv < 1 \<or> yv > 8 \<or> zv < 1 \<or> zv > 8 then None
                  else Some \<lparr>px = x, py = yv, pz = zv\<rparr>
              | _ \<Rightarrow> None)"

section \<open>Auxiliary notions for the proofs\<close>

text \<open>
  The squares one ray contributes, as a total function: for a direction other than zero
  the walk leaves the board after at most eight steps. It is related to \<open>walkRay\<close> in
  lemma \<open>walkRay_raySquares\<close>.
\<close>

definition zeroDir :: position where
  "zeroDir = mkPos 0 0 0"

definition rayMeasure :: "position \<Rightarrow> position \<Rightarrow> nat" where
  "rayMeasure cur dir =
     (if px dir > 0 then nat (9 - px cur) else if px dir < 0 then nat (px cur)
      else if py dir > 0 then nat (9 - py cur) else if py dir < 0 then nat (py cur)
      else if pz dir > 0 then nat (9 - pz cur) else nat (pz cur))"

function raySquares :: "position \<Rightarrow> position \<Rightarrow> board \<Rightarrow> PieceColor \<Rightarrow> position list" where
  "raySquares cur dir b c =
     (if dir = zeroDir \<or> \<not> isValidPosition (stepBy cur dir) then []
      else case getPiece b (stepBy cur dir) of
             None \<Rightarrow> stepBy cur dir # raySquares (stepBy cur dir) dir b c
           | Some q \<Rightarrow> if color q \<noteq> c then [stepBy cur dir] else [])"
  by pat_completeness auto
termination
proof (relation "measure (\<lambda>(cur, dir, b, c). rayMeasure cur dir)")
  show "wf (measure (\<lambda>(cur, dir, b, c). rayMeasure cur dir))" by simp
next
  fix cur dir :: position and b :: board and c :: PieceColor
  assume "\<not> (dir = zeroDir \<or> \<not> isValidPosition (stepBy cur dir))"
  then have nz: "dir \<noteq> zeroDir" and v: "isValidPosition (stepBy cur dir)" by simp_all
  from nz have "px dir \<noteq> 0 \<or> py dir \<noteq> 0 \<or> pz dir \<noteq> 0"
    by (cases dir) (simp add: zeroDir_def mkPos_def)
  with v have "rayMeasure (stepBy cur dir) dir < rayMeasure cur dir"
    by (auto simp: rayMeasure_def isValidPosition_def stepBy_def)
  then show "((stepBy cur dir, dir, b, c), (cur, dir, b, c)) \<in> measure (\<lambda>(cur, dir, b, c). rayMeasure cur dir)"
    by simp
qed

declare raySquares.simps [simp del]

text \<open>The \<open>k\<close>-th square of the ray from \<open>start\<close> in direction \<open>dir\<close>.\<close>

definition rayPoint :: "position \<Rightarrow> position \<Rightarrow> int \<Rightarrow> position" where
  "rayPoint start dir k =
     \<lparr>px = px start + k * px dir, py = py start + k * py dir, pz = pz start + k * pz dir\<rparr>"

text \<open>
  \<open>onRay b c cur dir k\<close>: the \<open>k\<close>-th square of the ray can be reached: the squares
  up to it are in bounds, the ones before it are empty, and it is empty or an opponent's.
\<close>

definition onRay :: "board \<Rightarrow> PieceColor \<Rightarrow> position \<Rightarrow> position \<Rightarrow> int \<Rightarrow> bool" where
  "onRay b c cur dir k \<longleftrightarrow>
     (\<forall>j. 1 \<le> j \<and> j \<le> k \<longrightarrow> isValidPosition (rayPoint cur dir j)) \<and>
     (\<forall>j. 1 \<le> j \<and> j \<le> k - 1 \<longrightarrow> getPiece b (rayPoint cur dir j) = None) \<and>
     freeOrOpponent b c (rayPoint cur dir k)"

section \<open>The state rule in the words of the specification\<close>

text \<open>
  The legal-destination set of a piece is what \<open>getValidMoves\<close> returns for it. The
  definitions below restate the state rule of the specification over such sets and over
  the entries of the board itself: they use none of \<open>getPiecesByColor\<close>, \<open>findKing\<close>,
  \<open>isKingInCheck\<close>, \<open>hasValidMoves\<close> and \<open>updateGameState\<close>, with which they are
  compared.
\<close>

definition legalDestinations :: "piece \<Rightarrow> board \<Rightarrow> position set" where
  "legalDestinations pc b = (case getValidMoves pc b of None \<Rightarrow> {} | Some ms \<Rightarrow> set ms)"

text \<open>
  The king of a side: the first piece in the board's order that has that color and is a
  king (the linear scan of the specification); \<open>None\<close> when the side has no king.
\<close>

fun specKingOf :: "board \<Rightarrow> PieceColor \<Rightarrow> piece option" where
  "specKingOf [] c = None"
| "specKingOf ((k, pc) # es) c =
     (if color pc = c \<and> ptype pc = KING then Some pc else specKingOf es c)"

text \<open>
  The king of side \<open>c\<close> is attacked: its coordinate is in the legal-destination set of
  some piece on the board whose color is not \<open>c\<close>. A missing king is not in check.
\<close>

definition specKingInCheck :: "board \<Rightarrow> PieceColor \<Rightarrow> bool" where
  "specKingInCheck b c =
     (case specKingOf b c of
        None \<Rightarrow> False
      | Some king \<Rightarrow>
          (\<exists>e \<in> set b. color (snd e) \<noteq> c \<and> position king \<in> legalDestinations (snd e) b))"

text \<open>Some piece on the board of color \<open>c\<close> has a non-empty legal-destination set.\<close>

definition specHasMoves :: "board \<Rightarrow> PieceColor \<Rightarrow> bool" where
  "specHasMoves b c = (\<exists>e \<in> set b. color (snd e) = c \<and> legalDestinations (snd e) b \<noteq> {})"

definition specState :: "board \<Rightarrow> PieceColor \<Rightarrow> GameState" where
  "specState b c =
     (if specKingInCheck b c then (if specHasMoves b c then CHECK else CHECKMATE)
      else (if specHasMoves b c then ACTIVE else STALEMATE))"

section \<open>Kings on the board\<close>

text \<open>A king of color \<open>c\<close> is among the entries of the board.\<close>

definition hasKing :: "board \<Rightarrow> PieceColor \<Rightarrow> bool" where
  "hasKing b c = list_ex (\<lambda>e. ptype (snd e) = KING \<and> color (snd e) = c) b"

definition kingsOnBoard :: "game \<Rightarrow> bool \<times> bool" where
  "kingsOnBoard g = (hasKing (board g) WHITE, hasKing (board g) BLACK)"

text \<open>
  The games reached from \<open>createGame\<close> by accepted moves none of which lands on a
  square that holds a king.
\<close>

inductive kingSparing :: "game \<Rightarrow> bool" where
  start: "kingSparing createGame"
| step: "kingSparing g \<Longrightarrow> makeMove g from to = Some (True, g') \<Longrightarrow>
         (\<forall>q. getPiece (board g) to = Some q \<longrightarrow> ptype q \<noteq> KING) \<Longrightarrow> kingSparing g'"

text \<open>The \<open>hasMoved\<close> property of the piece on a square, if there is a piece.\<close>

definition hasMovedAt :: "position \<Rightarrow> game \<Rightarrow> bool option option" where
  "hasMovedAt pos g = map_option hasMoved (getPiece (board g) pos)"

text \<open>The game \<open>makeMove\<close> leaves when it accepts the move of \<open>pc\<close> from \<open>from\<close> to \<open>to\<close>.\<close>

definition afterMove :: "game \<Rightarrow> position \<Rightarrow> position \<Rightarrow> piece \<Rightarrow> game" where
  "afterMove g from to pc =
     (let b' = fst (movePiece (board g) from to);
          c' = (if currentTurn g = WHITE then BLACK else WHITE)
      in \<lparr>board = b',
          currentTurn = c',
          moves = moves g @ [\<lparr>mfrom = from, mto = to, mpiece = relocated pc to,
                               capturedPiece = (if positionToKey from = positionToKey to
                                                then Some (relocated pc to)
                                                else getPiece (board g) to)\<rparr>],
          state = specState b' c'\<rparr>)"

section \<open>Keys are injective\<close>

lemma digitChar_code: "n < 10 \<Longrightarrow> of_char (digitChar n) = 48 + n"
  by (simp add: digitChar_def)

lemma digitChar_inj:
  assumes "m < 10" and "n < 10" and "digitChar m = digitChar n"
  shows "m = n"
proof -
  have "(of_char (digitChar m) :: nat) = of_char (digitChar n)"
    by (simp only: assms(3))
  then have "48 + m = 48 + n"
    by (simp only: digitChar_code [OF assms(1)] digitChar_code [OF assms(2)])
  then show ?thesis by simp
qed

lemma showNat_length: "length (showNat n) = (if n < 10 then 1 else Suc (length (showNat (n div 10))))"
  by (subst showNat.simps) simp

lemma showNat_not_Nil: "showNat n \<noteq> []"
  by (subst showNat.simps) simp

lemma showNat_inj: "showNat m = showNat n \<Longrightarrow> m = n"
proof (induction m arbitrary: n rule: showNat.induct)
  case (1 m)
  show ?case
  proof (cases "m < 10")
    case True
    have "n < 10"
    proof (rule ccontr)
      assume "\<not> n < 10"
      then have "length (showNat n) \<ge> 2"
        using showNat_not_Nil [of "n div 10"] by (subst showNat.simps) (simp add: Suc_le_eq)
      moreover have "length (showNat m) = 1" using True by (simp add: showNat_length)
      ultimately show False using "1.prems" by simp
    qed
    with True "1.prems" have "digitChar m = digitChar n"
      by (subst (asm) showNat.simps, subst (asm) (2) showNat.simps) simp
    with True \<open>n < 10\<close> show ?thesis by (rule digitChar_inj)
  next
    case False
    have big: "\<not> n < 10"
    proof
      assume "n < 10"
      then have "length (showNat n) = 1" by (simp add: showNat_length)
      moreover have "length (showNat m) \<ge> 2"
        using False showNat_not_Nil [of "m div 10"] by (subst showNat.simps) (simp add: Suc_le_eq)
      ultimately show False using "1.prems" by simp
    qed
    have "showNat (m div 10) @ [digitChar (m mod 10)] = showNat (n div 10) @ [digitChar (n mod 10)]"
      using "1.prems" False big by (subst (asm) showNat.simps, subst (asm) (2) showNat.simps) simp
    then have a: "showNat (m div 10) = showNat (n div 10)" and b: "digitChar (m mod 10) = digitChar (n mod 10)"
      by simp_all
    from "1.IH" [OF False a] have "m div 10 = n div 10" .
    moreover from b have "m mod 10 = n mod 10" by (intro digitChar_inj) simp_all
    ultimately show ?thesis by (metis div_mult_mod_eq)
  qed
qed

lemma showNat_chars: "c \<in> set (showNat n) \<Longrightarrow> \<exists>d<10. c = digitChar d"
proof (induction n rule: showNat.induct)
  case (1 n)
  show ?case
  proof (cases "n < 10")
    case True
    with "1.prems" show ?thesis by (subst (asm) showNat.simps) auto
  next
    case False
    with "1.prems" have "c \<in> set (showNat (n div 10)) \<or> c = digitChar (n mod 10)"
      by (subst (asm) showNat.simps) auto
    then show ?thesis
    proof
      assume "c \<in> set (showNat (n div 10))"
      with "1.IH" False show ?thesis by blast
    next
      assume "c = digitChar (n mod 10)"
      moreover have "n mod 10 < 10" by simp
      ultimately show ?thesis by blast
    qed
  qed
qed

lemma digitChar_not_minus: "d < 10 \<Longrightarrow> digitChar d \<noteq> CHR ''-''"
proof
  assume "d < 10" and "digitChar d = CHR ''-''"
  then have "(of_char (CHR ''-'') :: nat) = 48 + d" using digitChar_code [of d] by (simp only:)
  then show False by simp
qed

lemma digitChar_not_comma: "d < 10 \<Longrightarrow> digitChar d \<noteq> CHR '',''"
proof
  assume "d < 10" and "digitChar d = CHR '',''"
  then have "(of_char (CHR '','') :: nat) = 48 + d" using digitChar_code [of d] by (simp only:)
  then show False by simp
qed

lemma showNat_no_minus: "CHR ''-'' \<notin> set (showNat n)"
proof
  assume "CHR ''-'' \<in> set (showNat n)"
  from showNat_chars [OF this] obtain d where "d < 10" "CHR ''-'' = digitChar d" by blast
  then show False using digitChar_not_minus [of d] by simp
qed

lemma showNat_no_comma: "CHR '','' \<notin> set (showNat n)"
proof
  assume "CHR '','' \<in> set (showNat n)"
  from showNat_chars [OF this] obtain d where "d < 10" "CHR '','' = digitChar d" by blast
  then show False using digitChar_not_comma [of d] by simp
qed

lemma showInt_no_comma: "CHR '','' \<notin> set (showInt i)"
  by (simp add: showInt_def showNat_no_comma)

lemma showNat_hd_not_minus: "showNat n \<noteq> CHR ''-'' # cs"
proof
  assume "showNat n = CHR ''-'' # cs"
  then have "CHR ''-'' \<in> set (showNat n)" by simp
  then show False using showNat_no_minus by blast
qed

lemma showInt_inj: "showInt i = showInt j \<Longrightarrow> i = j"
proof -
  assume eq: "showInt i = showInt j"
  consider "i < 0" "j < 0" | "i < 0" "\<not> j < 0" | "\<not> i < 0" "j < 0" | "\<not> i < 0" "\<not> j < 0"
    by blast
  then show "i = j"
  proof cases
    case 1
    with eq have "showNat (nat (- i)) = showNat (nat (- j))" by (simp add: showInt_def)
    then have "nat (- i) = nat (- j)" by (rule showNat_inj)
    with 1 show ?thesis by simp
  next
    case 2
    with eq have "showNat (nat j) = CHR ''-'' # showNat (nat (- i))" by (simp add: showInt_def)
    then show ?thesis using showNat_hd_not_minus by blast
  next
    case 3
    with eq have "showNat (nat i) = CHR ''-'' # showNat (nat (- j))" by (simp add: showInt_def)
    then show ?thesis using showNat_hd_not_minus by blast
  next
    case 4
    with eq have "showNat (nat i) = showNat (nat j)" by (simp add: showInt_def)
    then have "nat i = nat j" by (rule showNat_inj)
    with 4 show ?thesis by simp
  qed
qed

lemma split_at_first:
  "c \<notin> set xs \<Longrightarrow> c \<notin> set xs' \<Longrightarrow> xs @ c # ys = xs' @ c # ys' \<Longrightarrow> xs = xs' \<and> ys = ys'"
proof (induction xs arbitrary: xs')
  case Nil
  then show ?case by (cases xs') auto
next
  case (Cons a xs)
  then show ?case by (cases xs') auto
qed

lemma comma_split:
  "showInt a @ CHR '','' # r = showInt b @ CHR '','' # s \<Longrightarrow> showInt a = showInt b \<and> r = s"
  by (rule split_at_first [OF showInt_no_comma showInt_no_comma])

lemma positionToKey_inj [simp]: "positionToKey p = positionToKey q \<longleftrightarrow> p = q"
proof
  assume "positionToKey p = positionToKey q"
  then have e: "showInt (px p) @ CHR '','' # (showInt (py p) @ CHR '','' # showInt (pz p))
      = showInt (px q) @ CHR '','' # (showInt (py q) @ CHR '','' # showInt (pz q))"
    by (simp add: positionToKey_def)
  from comma_split [OF e] have 1: "showInt (px p) = showInt (px q)"
    and r: "showInt (py p) @ CHR '','' # showInt (pz p) = showInt (py q) @ CHR '','' # showInt (pz q)"
    by simp_all
  from comma_split [OF r] have 2: "showInt (py p) = showInt (py q)" and 3: "showInt (pz p) = showInt (pz q)"
    by simp_all
  have "px p = px q" "py p = py q" "pz p = pz q"
    using 1 2 3 showInt_inj by blast+
  then show "p = q" by (intro position.equality) simp_all
next
  assume "p = q" then show "positionToKey p = positionToKey q" by simp
qed

section \<open>The Map operations and the board primitives\<close>

lemma mapGet_mapSet: "mapGet (mapSet es k v) k' = (if k' = k then Some v else mapGet es k')"
  by (induction es) auto

lemma mapGet_mapDelete: "mapGet (mapDelete es k) k' = (if k' = k then None else mapGet es k')"
  by (induction es) auto

lemma mapDelete_absent: "mapGet es k = None \<Longrightarrow> mapDelete es k = es"
  by (induction es) (auto split: if_splits)


lemma relocated_simps [simp]:
  "position (relocated pc to) = to"
  "color (relocated pc to) = color pc"
  "ptype (relocated pc to) = ptype pc"
  "hasMoved (relocated pc to) = (if hasMoved pc = None then None else Some True)"
  by (simp_all add: relocated_def)

lemma movePiece_board:
  assumes "getPiece b from = Some pc"
  shows "fst (movePiece b from to) =
           mapSet (mapDelete (mapDelete b (positionToKey from)) (positionToKey to))
             (positionToKey to) (relocated pc to)"
proof -
  let ?b1 = "mapDelete b (positionToKey from)"
  have r: "removePiece b from = (?b1, Some pc)"
    using assms by (simp add: removePiece_def getPiece_def Let_def)
  have "(if getPiece ?b1 to \<noteq> None then fst (removePiece ?b1 to) else ?b1)
          = mapDelete ?b1 (positionToKey to)"
    by (auto simp: removePiece_def getPiece_def Let_def mapDelete_absent)
  then show ?thesis
    by (simp add: movePiece_def r Let_def addPiece_def)
qed

lemma getPiece_movePiece:
  assumes "getPiece b from = Some pc"
  shows "getPiece (fst (movePiece b from to)) pos =
           (if pos = to then Some (relocated pc to)
            else if pos = from then None else getPiece b pos)"
  by (simp add: movePiece_board [OF assms] getPiece_def mapGet_mapSet mapGet_mapDelete)

section \<open>Rays\<close>

lemma walkRay_raySquares:
  "dir \<noteq> zeroDir \<Longrightarrow> walkRay cur dir b c acc = Some (acc @ raySquares cur dir b c)"
proof (induction cur dir b c arbitrary: acc rule: raySquares.induct)
  case (1 cur dir b c)
  show ?case
  proof (cases "isValidPosition (stepBy cur dir)")
    case False
    then show ?thesis
      by (subst walkRay.simps, subst raySquares.simps) (simp add: Let_def)
  next
    case True
    show ?thesis
    proof (cases "getPiece b (stepBy cur dir)")
      case None
      from "1.IH" [of "acc @ [stepBy cur dir]"] "1.prems" True None
      have "walkRay (stepBy cur dir) dir b c (acc @ [stepBy cur dir])
              = Some ((acc @ [stepBy cur dir]) @ raySquares (stepBy cur dir) dir b c)"
        by simp
      with "1.prems" True None show ?thesis
        by (subst walkRay.simps, subst raySquares.simps) (simp add: Let_def)
    next
      case (Some q)
      with "1.prems" True show ?thesis
        by (subst walkRay.simps, subst raySquares.simps) (simp add: Let_def)
    qed
  qed
qed

lemma linearLoop_raySquares:
  "\<forall>d \<in> set dirs. d \<noteq> zeroDir \<Longrightarrow>
     linearLoop start dirs b c acc = Some (acc @ concat (map (\<lambda>d. raySquares start d b c) dirs))"
  by (induction dirs arbitrary: acc) (simp_all add: walkRay_raySquares)

lemma rookDirections_nonzero: "\<forall>d \<in> set rookDirections. d \<noteq> zeroDir"
  by (simp add: rookDirections_def zeroDir_def mkPos_def)

lemma bishopDirections_nonzero: "\<forall>d \<in> set bishopDirections. d \<noteq> zeroDir"
  by (simp add: bishopDirections_def zeroDir_def mkPos_def)

lemma getRookMoves_eq:
  "getRookMoves pc b = Some (concat (map (\<lambda>d. raySquares (position pc) d b (color pc)) rookDirections))"
  by (simp add: getRookMoves_def getLinearMoves_def linearLoop_raySquares [OF rookDirections_nonzero])

lemma getBishopMoves_eq:
  "getBishopMoves pc b = Some (concat (map (\<lambda>d. raySquares (position pc) d b (color pc)) bishopDirections))"
  by (simp add: getBishopMoves_def getLinearMoves_def linearLoop_raySquares [OF bishopDirections_nonzero])

lemma getQueenMoves_eq:
  "getQueenMoves pc b =
     Some (concat (map (\<lambda>d. raySquares (position pc) d b (color pc)) rookDirections)
           @ concat (map (\<lambda>d. raySquares (position pc) d b (color pc)) bishopDirections))"
  by (simp add: getQueenMoves_def getRookMoves_eq getBishopMoves_eq)

lemma getValidMoves_total: "\<exists>ms. getValidMoves pc b = Some ms"
  by (cases "ptype pc") (simp_all add: getValidMoves_def getRookMoves_eq getBishopMoves_eq getQueenMoves_eq)

section \<open>Evaluating the engine\<close>

lemma position_fields_eq:
  "(px pos = px t \<and> py pos = py t \<and> pz pos = pz t) \<longleftrightarrow> pos = (t :: position)"
  by (cases pos, cases t) auto

lemma isValidMove_eq:
  "getValidMoves pc b = Some ms \<Longrightarrow> isValidMove pc to b = Some (to \<in> set ms)"
  by (simp add: isValidMove_def list_ex_iff position_fields_eq)

lemma setupBoard_eval:
  "setupBoard = map (\<lambda>pc. (positionToKey (position pc), pc))
     [mkPiece PAWN WHITE 1 2 1 (Some False), mkPiece PAWN WHITE 2 2 1 (Some False),
      mkPiece PAWN WHITE 3 2 1 (Some False), mkPiece PAWN WHITE 4 2 1 (Some False),
      mkPiece PAWN WHITE 5 2 1 (Some False), mkPiece PAWN WHITE 6 2 1 (Some False),
      mkPiece PAWN WHITE 7 2 1 (Some False), mkPiece PAWN WHITE 8 2 1 (Some False),
      mkPiece ROOK WHITE 1 1 1 (Some False), mkPiece ROOK WHITE 8 1 1 (Some False),
      mkPiece KNIGHT WHITE 2 1 1 None, mkPiece KNIGHT WHITE 7 1 1 None,
      mkPiece BISHOP WHITE 3 1 1 None, mkPiece BISHOP WHITE 6 1 1 None,
      mkPiece QUEEN WHITE 4 1 1 None, mkPiece KING WHITE 5 1 1 (Some False),
      mkPiece PAWN BLACK 1 7 1 (Some False), mkPiece PAWN BLACK 2 7 1 (Some False),
      mkPiece PAWN BLACK 3 7 1 (Some False), mkPiece PAWN BLACK 4 7 1 (Some False),
      mkPiece PAWN BLACK 5 7 1 (Some False), mkPiece PAWN BLACK 6 7 1 (Some False),
      mkPiece PAWN BLACK 7 7 1 (Some False), mkPiece PAWN BLACK 8 7 1 (Some False),
      mkPiece ROOK BLACK 1 8 1 (Some False), mkPiece ROOK BLACK 8 8 1 (Some False),
      mkPiece KNIGHT BLACK 2 8 1 None, mkPiece KNIGHT BLACK 7 8 1 None,
      mkPiece BISHOP BLACK 3 8 1 None, mkPiece BISHOP BLACK 6 8 1 None,
      mkPiece QUEEN BLACK 4 8 1 None, mkPiece KING BLACK 5 8 1 (Some False)]"
  by (simp add: setupBoard_def setupBaseLayer_def createEmptyBoard_def addPiece_def mkPiece_def)

lemma setupBoard_list:
  "setupBoard =
     [(positionToKey (mkPos 1 2 1), mkPiece PAWN WHITE 1 2 1 (Some False)),
      (positionToKey (mkPos 2 2 1), mkPiece PAWN WHITE 2 2 1 (Some False)),
      (positionToKey (mkPos 3 2 1), mkPiece PAWN WHITE 3 2 1 (Some False)),
      (positionToKey (mkPos 4 2 1), mkPiece PAWN WHITE 4 2 1 (Some False)),
      (positionToKey (mkPos 5 2 1), mkPiece PAWN WHITE 5 2 1 (Some False)),
      (positionToKey (mkPos 6 2 1), mkPiece PAWN WHITE 6 2 1 (Some False)),
      (positionToKey (mkPos 7 2 1), mkPiece PAWN WHITE 7 2 1 (Some False)),
      (positionToKey (mkPos 8 2 1), mkPiece PAWN WHITE 8 2 1 (Some False)),
      (positionToKey (mkPos 1 1 1), mkPiece ROOK WHITE 1 1 1 (Some False)),
      (positionToKey (mkPos 8 1 1), mkPiece ROOK WHITE 8 1 1 (Some False)),
      (positionToKey (mkPos 2 1 1), mkPiece KNIGHT WHITE 2 1 1 (None)),
      (positionToKey (mkPos 7 1 1), mkPiece KNIGHT WHITE 7 1 1 (None)),
      (positionToKey (mkPos 3 1 1), mkPiece BISHOP WHITE 3 1 1 (None)),
      (positionToKey (mkPos 6 1 1), mkPiece BISHOP WHITE 6 1 1 (None)),
      (positionToKey (mkPos 4 1 1), mkPiece QUEEN WHITE 4 1 1 (None)),
      (positionToKey (mkPos 5 1 1), mkPiece KING WHITE 5 1 1 (Some False)),
      (positionToKey (mkPos 1 7 1), mkPiece PAWN BLACK 1 7 1 (Some False)),
      (positionToKey (mkPos 2 7 1), mkPiece PAWN BLACK 2 7 1 (Some False)),
      (positionToKey (mkPos 3 7 1), mkPiece PAWN BLACK 3 7 1 (Some False)),
      (positionToKey (mkPos 4 7 1), mkPiece PAWN BLACK 4 7 1 (Some False)),
      (positionToKey (mkPos 5 7 1), mkPiece PAWN BLACK 5 7 1 (Some False)),
      (positionToKey (mkPos 6 7 1), mkPiece PAWN BLACK 6 7 1 (Some False)),
      (positionToKey (mkPos 7 7 1), mkPiece PAWN BLACK 7 7 1 (Some False)),
      (positionToKey (mkPos 8 7 1), mkPiece PAWN BLACK 8 7 1 (Some False)),
      (positionToKey (mkPos 1 8 1), mkPiece ROOK BLACK 1 8 1 (Some False)),
      (positionToKey (mkPos 8 8 1), mkPiece ROOK BLACK 8 8 1 (Some False)),
      (positionToKey (mkPos 2 8 1), mkPiece KNIGHT BLACK 2 8 1 (None)),
      (positionToKey (mkPos 7 8 1), mkPiece KNIGHT BLACK 7 8 1 (None)),
      (positionToKey (mkPos 3 8 1), mkPiece BISHOP BLACK 3 8 1 (None)),
      (positionToKey (mkPos 6 8 1), mkPiece BISHOP BLACK 6 8 1 (None)),
      (positionToKey (mkPos 4 8 1), mkPiece QUEEN BLACK 4 8 1 (None)),
      (positionToKey (mkPos 5 8 1), mkPiece KING BLACK 5 8 1 (Some False))]"
  by (simp add: setupBoard_eval mkPiece_def mkPos_def)

lemma mkPos_eq [simp]: "mkPos a b d = mkPos a' b' d' \<longleftrightarrow> a = a' \<and> b = b' \<and> d = d'"
  by (simp add: mkPos_def)

lemma mkPos_sel [simp]: "px (mkPos a b d) = a" "py (mkPos a b d) = b" "pz (mkPos a b d) = d"
  by (simp_all add: mkPos_def)

lemma mkPiece_sel [simp]:
  "ptype (mkPiece t c a b d h) = t" "color (mkPiece t c a b d h) = c"
  "position (mkPiece t c a b d h) = mkPos a b d" "hasMoved (mkPiece t c a b d h) = h"
  by (simp_all add: mkPiece_def mkPos_def)

lemma isValidPosition_mkPos [simp]:
  "isValidPosition (mkPos a b d) \<longleftrightarrow> 1 \<le> a \<and> a \<le> 8 \<and> 1 \<le> b \<and> b \<le> 8 \<and> 1 \<le> d \<and> d \<le> 8"
  by (simp add: isValidPosition_def)

lemma getPiece_Cons [simp]:
  "getPiece ((positionToKey p, v) # es) (mkPos a b d) =
     (if p = mkPos a b d then Some v else getPiece es (mkPos a b d))"
  by (simp add: getPiece_def)

lemma getPiece_Nil [simp]: "getPiece [] pos = None"
  by (simp add: getPiece_def)

lemma opponentAt_mkPos [simp]:
  "opponentAt b c (mkPos x y z) = (case getPiece b (mkPos x y z) of None \<Rightarrow> False | Some q \<Rightarrow> color q \<noteq> c)"
  by (simp add: opponentAt_def)

lemma freeOrOpponent_mkPos [simp]:
  "freeOrOpponent b c (mkPos x y z) = (case getPiece b (mkPos x y z) of None \<Rightarrow> True | Some q \<Rightarrow> color q \<noteq> c)"
  by (simp add: freeOrOpponent_def)

lemma stepBy_mkPos [simp]: "stepBy (mkPos a b d) (mkPos a' b' d') = mkPos (a + a') (b + b') (d + d')"
  by (simp add: stepBy_def mkPos_def)

lemma getPiece_setup_black_pawn:
  "getPiece setupBoard (mkPos 1 7 1) = Some (mkPiece PAWN BLACK 1 7 1 (Some False))"
  by (simp add: setupBoard_list)

lemma getPiece_empty [simp]: "getPiece createEmptyBoard pos = None"
  by (simp add: getPiece_def createEmptyBoard_def)

section \<open>What a ray contributes\<close>

lemma rayPoint_step: "rayPoint (stepBy cur dir) dir k = rayPoint cur dir (k + 1)"
  by (simp add: rayPoint_def stepBy_def algebra_simps)

lemma rayPoint_one: "rayPoint cur dir 1 = stepBy cur dir"
  by (simp add: rayPoint_def stepBy_def)

lemma rayPoint_not_start:
  assumes "dir \<noteq> zeroDir" and "1 \<le> k"
  shows "rayPoint cur dir k \<noteq> cur"
proof
  assume e: "rayPoint cur dir k = cur"
  have "px (rayPoint cur dir k) = px cur" "py (rayPoint cur dir k) = py cur"
       "pz (rayPoint cur dir k) = pz cur"
    by (simp_all only: e)
  with \<open>1 \<le> k\<close> have "px dir = 0" "py dir = 0" "pz dir = 0"
    by (simp_all add: rayPoint_def)
  then have "dir = zeroDir" by (cases dir) (simp add: zeroDir_def mkPos_def)
  with assms(1) show False by simp
qed

lemma all_shift:
  fixes k :: int
  assumes "0 \<le> k"
  shows "(\<forall>j. 1 \<le> j \<and> j \<le> k + 1 \<longrightarrow> Q j) \<longleftrightarrow> Q 1 \<and> (\<forall>j. 1 \<le> j \<and> j \<le> k \<longrightarrow> Q (j + 1))"
proof
  assume a: "\<forall>j. 1 \<le> j \<and> j \<le> k + 1 \<longrightarrow> Q j"
  show "Q 1 \<and> (\<forall>j. 1 \<le> j \<and> j \<le> k \<longrightarrow> Q (j + 1))"
    using a assms by simp
next
  assume b: "Q 1 \<and> (\<forall>j. 1 \<le> j \<and> j \<le> k \<longrightarrow> Q (j + 1))"
  show "\<forall>j. 1 \<le> j \<and> j \<le> k + 1 \<longrightarrow> Q j"
  proof (intro allI impI)
    fix j assume j: "1 \<le> j \<and> j \<le> k + 1"
    show "Q j"
    proof (cases "j = 1")
      case True with b show ?thesis by simp
    next
      case False
      with j have "1 \<le> j - 1 \<and> j - 1 \<le> k" by simp
      with b have "Q (j - 1 + 1)" by blast
      then show ?thesis by simp
    qed
  qed
qed

lemma onRay_one:
  "onRay b c cur dir 1 \<longleftrightarrow> isValidPosition (stepBy cur dir) \<and> freeOrOpponent b c (stepBy cur dir)"
proof -
  have v: "(\<forall>j. 1 \<le> j \<and> j \<le> 1 \<longrightarrow> isValidPosition (rayPoint cur dir j)) \<longleftrightarrow>
      isValidPosition (rayPoint cur dir 1)"
    by (metis order_antisym order_refl)
  have e: "\<forall>j. 1 \<le> j \<and> j \<le> 1 - 1 \<longrightarrow> getPiece b (rayPoint cur dir j) = None"
    by auto
  show ?thesis
    unfolding onRay_def using v e by (simp add: rayPoint_one)
qed

lemma onRay_Suc:
  assumes "1 \<le> k"
  shows "onRay b c cur dir (k + 1) \<longleftrightarrow>
           isValidPosition (stepBy cur dir) \<and> getPiece b (stepBy cur dir) = None \<and>
           onRay b c (stepBy cur dir) dir k"
proof -
  have v: "(\<forall>j. 1 \<le> j \<and> j \<le> k + 1 \<longrightarrow> isValidPosition (rayPoint cur dir j)) \<longleftrightarrow>
        isValidPosition (rayPoint cur dir 1) \<and>
        (\<forall>j. 1 \<le> j \<and> j \<le> k \<longrightarrow> isValidPosition (rayPoint cur dir (j + 1)))"
    using assms by (intro all_shift) simp
  have e: "(\<forall>j. 1 \<le> j \<and> j \<le> (k - 1) + 1 \<longrightarrow> getPiece b (rayPoint cur dir j) = None) \<longleftrightarrow>
        getPiece b (rayPoint cur dir 1) = None \<and>
        (\<forall>j. 1 \<le> j \<and> j \<le> k - 1 \<longrightarrow> getPiece b (rayPoint cur dir (j + 1)) = None)"
    using assms by (intro all_shift) simp
  show ?thesis
    unfolding onRay_def rayPoint_step using v e by (simp add: rayPoint_one) blast
qed

lemma raySquares_iff:
  "dir \<noteq> zeroDir \<Longrightarrow>
     pos \<in> set (raySquares cur dir b c) \<longleftrightarrow> (\<exists>k\<ge>1. pos = rayPoint cur dir k \<and> onRay b c cur dir k)"
proof (induction cur dir b c rule: raySquares.induct)
  case (1 cur dir b c)
  let ?s = "stepBy cur dir"
  have split: "(\<exists>k\<ge>1. pos = rayPoint cur dir k \<and> onRay b c cur dir k) \<longleftrightarrow>
      (pos = ?s \<and> onRay b c cur dir 1) \<or>
      (\<exists>k\<ge>1. pos = rayPoint cur dir (k + 1) \<and> onRay b c cur dir (k + 1))" (is "?L \<longleftrightarrow> ?A \<or> ?B")
  proof
    assume ?L
    then obtain k where k: "1 \<le> k" "pos = rayPoint cur dir k" "onRay b c cur dir k" by blast
    show "?A \<or> ?B"
    proof (cases "k = 1")
      case True with k show ?thesis by (simp add: rayPoint_one)
    next
      case False
      with k have "1 \<le> k - 1" "pos = rayPoint cur dir (k - 1 + 1)" "onRay b c cur dir (k - 1 + 1)"
        by simp_all
      then show ?thesis by blast
    qed
  next
    assume "?A \<or> ?B"
    then show ?L
    proof
      assume ?A then show ?L using rayPoint_one by (metis order_refl)
    next
      assume ?B
      then obtain k where "1 \<le> k" "pos = rayPoint cur dir (k + 1)" "onRay b c cur dir (k + 1)" by blast
      moreover from this have "1 \<le> k + 1" by simp
      ultimately show ?L by blast
    qed
  qed
  have B: "(\<exists>k\<ge>1. pos = rayPoint cur dir (k + 1) \<and> onRay b c cur dir (k + 1)) \<longleftrightarrow>
      isValidPosition ?s \<and> getPiece b ?s = None \<and>
      (\<exists>k\<ge>1. pos = rayPoint ?s dir k \<and> onRay b c ?s dir k)"
    by (auto simp: onRay_Suc rayPoint_step)
  show ?case
  proof (cases "isValidPosition ?s")
    case False
    then have "raySquares cur dir b c = []" by (subst raySquares.simps) simp
    with False show ?thesis unfolding split B by (simp add: onRay_one)
  next
    case True
    show ?thesis
    proof (cases "getPiece b ?s")
      case None
      have "raySquares cur dir b c = ?s # raySquares ?s dir b c"
        using "1.prems" True None by (subst raySquares.simps) simp
      moreover have "pos \<in> set (raySquares ?s dir b c) \<longleftrightarrow>
          (\<exists>k\<ge>1. pos = rayPoint ?s dir k \<and> onRay b c ?s dir k)"
        using "1.IH" "1.prems" True None by simp
      ultimately show ?thesis
        unfolding split B using True None by (simp add: onRay_one freeOrOpponent_def)
    next
      case (Some q)
      have "raySquares cur dir b c = (if color q \<noteq> c then [?s] else [])"
        using "1.prems" True Some by (subst raySquares.simps) simp
      then show ?thesis
        unfolding split B using True Some by (auto simp: onRay_one freeOrOpponent_def)
    qed
  qed
qed

section \<open>Destinations of the single-step pieces and of the pawn\<close>

lemma freeOrOpponent_iff:
  "freeOrOpponent b c pos \<longleftrightarrow> (\<forall>q. getPiece b pos = Some q \<longrightarrow> color q \<noteq> c)"
  by (simp add: freeOrOpponent_def split: option.splits)

lemma opponentAt_free: "opponentAt b c pos \<Longrightarrow> freeOrOpponent b c pos"
  by (simp add: opponentAt_def freeOrOpponent_def split: option.splits)

lemma raySquares_sound:
  assumes "dir \<noteq> zeroDir" and "pos \<in> set (raySquares cur dir b c)"
  shows "isValidPosition pos \<and> freeOrOpponent b c pos \<and> pos \<noteq> cur"
proof -
  from assms obtain k where k: "1 \<le> k" "pos = rayPoint cur dir k" "onRay b c cur dir k"
    by (auto simp: raySquares_iff)
  from k(3) have "\<forall>j. 1 \<le> j \<and> j \<le> k \<longrightarrow> isValidPosition (rayPoint cur dir j)"
    and f: "freeOrOpponent b c (rayPoint cur dir k)"
    by (simp_all add: onRay_def)
  with k(1) have "isValidPosition (rayPoint cur dir k)" by simp
  with f k rayPoint_not_start [OF assms(1) k(1)] show ?thesis by simp
qed

lemma rays_sound:
  assumes "\<forall>d \<in> set dirs. d \<noteq> zeroDir"
    and "pos \<in> set (concat (map (\<lambda>d. raySquares cur d b c) dirs))"
  shows "isValidPosition pos \<and> freeOrOpponent b c pos \<and> pos \<noteq> cur"
proof -
  from assms(2) obtain d where d: "d \<in> set dirs" "pos \<in> set (raySquares cur d b c)" by auto
  from assms(1) d(1) have "d \<noteq> zeroDir" by simp
  then show ?thesis using d(2) by (rule raySquares_sound)
qed

lemma stepBy_offset_neq:
  "off \<noteq> zeroDir \<Longrightarrow> stepBy cur off \<noteq> cur"
  using rayPoint_not_start [of off 1 cur] by (simp add: rayPoint_one)

lemma knightOffsets_nonzero: "\<forall>d \<in> set knightOffsets. d \<noteq> zeroDir"
  by (simp add: knightOffsets_def zeroDir_def mkPos_def)

lemma kingOffsets_nonzero: "\<forall>d \<in> set kingOffsets. d \<noteq> zeroDir"
  by (simp add: kingOffsets_def zeroDir_def mkPos_def)

lemma offsets_sound:
  assumes "\<forall>d \<in> set offs. d \<noteq> zeroDir"
    and "pos \<in> set (filter (\<lambda>newPos. isValidPosition newPos \<and> freeOrOpponent b c newPos)
                      (map (stepBy cur) offs))"
  shows "isValidPosition pos \<and> freeOrOpponent b c pos \<and> pos \<noteq> cur"
  using assms stepBy_offset_neq by auto

lemma mkPos_neq:
  "a \<noteq> px p \<or> b \<noteq> py p \<or> d \<noteq> pz p \<Longrightarrow> mkPos a b d \<noteq> p"
  by (auto simp: mkPos_def)

lemma pawnDirection_cases: "pawnDirection c = 1 \<or> pawnDirection c = - 1"
  by (simp add: pawnDirection_def)

lemma getPawnMoves_iff:
  "pos \<in> set (getPawnMoves pc b) \<longleftrightarrow>
     (let x = px (position pc); y = py (position pc); z = pz (position pc);
          d = pawnDirection (color pc) in
      (isValidPosition (mkPos x (y + d) z) \<and> getPiece b (mkPos x (y + d) z) = None \<and>
         (pos = mkPos x (y + d) z \<or>
          (pos = mkPos x (y + 2 * d) z \<and> hasMoved pc \<noteq> Some True \<and>
           isValidPosition (mkPos x (y + 2 * d) z) \<and> getPiece b (mkPos x (y + 2 * d) z) = None))) \<or>
      (pos \<in> {mkPos (x - 1) (y + d) z, mkPos (x + 1) (y + d) z} \<and>
         isValidPosition pos \<and> opponentAt b (color pc) pos) \<or>
      (pos = mkPos x y (z + d) \<and> isValidPosition pos \<and> getPiece b pos = None) \<or>
      (pos \<in> {mkPos (x - 1) (y + d) (z + 1), mkPos (x + 1) (y + d) (z + 1),
                mkPos (x - 1) (y + d) (z - 1), mkPos (x + 1) (y + d) (z - 1)} \<and>
         isValidPosition pos \<and> opponentAt b (color pc) pos))"
  (is "?L \<longleftrightarrow> ?R")
proof -
  let ?x = "px (position pc)" and ?y = "py (position pc)" and ?z = "pz (position pc)"
  let ?d = "pawnDirection (color pc)"
  let ?fwd = "mkPos ?x (?y + ?d) ?z" and ?dbl = "mkPos ?x (?y + 2 * ?d) ?z"
  let ?forward = "if isValidPosition ?fwd \<and> getPiece b ?fwd = None
             then ?fwd #
                  (if hasMoved pc \<noteq> Some True
                   then (if isValidPosition ?dbl \<and> getPiece b ?dbl = None then [?dbl] else [])
                   else [])
             else []"
  let ?caps = "[mkPos (?x - 1) (?y + ?d) ?z, mkPos (?x + 1) (?y + ?d) ?z]"
  let ?up = "mkPos ?x ?y (?z + ?d)"
  let ?diag = "[mkPos (?x - 1) (?y + ?d) (?z + 1), mkPos (?x + 1) (?y + ?d) (?z + 1),
             mkPos (?x - 1) (?y + ?d) (?z - 1), mkPos (?x + 1) (?y + ?d) (?z - 1)]"
  let ?ok = "\<lambda>pos. isValidPosition pos \<and> opponentAt b (color pc) pos"
  have unfold: "getPawnMoves pc b =
      ?forward @ filter ?ok ?caps @ (if isValidPosition ?up \<and> getPiece b ?up = None then [?up] else [])
        @ filter ?ok ?diag"
    by (simp only: getPawnMoves_def Let_def)
  have f: "pos \<in> set ?forward \<longleftrightarrow>
      (isValidPosition ?fwd \<and> getPiece b ?fwd = None \<and>
         (pos = ?fwd \<or> (pos = ?dbl \<and> hasMoved pc \<noteq> Some True \<and>
           isValidPosition ?dbl \<and> getPiece b ?dbl = None)))"
    by (cases "isValidPosition ?fwd \<and> getPiece b ?fwd = None";
        cases "hasMoved pc \<noteq> Some True"; cases "isValidPosition ?dbl \<and> getPiece b ?dbl = None")
       (simp_all, blast+)
  have c: "pos \<in> set (filter ?ok ?caps) \<longleftrightarrow> (pos \<in> set ?caps \<and> ?ok pos)"
    by (simp only: set_filter mem_Collect_eq)
  have u: "pos \<in> set (if isValidPosition ?up \<and> getPiece b ?up = None then [?up] else []) \<longleftrightarrow>
      (pos = ?up \<and> isValidPosition pos \<and> getPiece b pos = None)"
    by (cases "isValidPosition ?up \<and> getPiece b ?up = None") auto
  have g: "pos \<in> set (filter ?ok ?diag) \<longleftrightarrow> (pos \<in> set ?diag \<and> ?ok pos)"
    by (simp only: set_filter mem_Collect_eq)
  have "?L \<longleftrightarrow> pos \<in> set ?forward \<or> pos \<in> set (filter ?ok ?caps) \<or>
      pos \<in> set (if isValidPosition ?up \<and> getPiece b ?up = None then [?up] else []) \<or>
      pos \<in> set (filter ?ok ?diag)"
    by (simp only: unfold set_append Un_iff)
  also have "\<dots> \<longleftrightarrow> ?R"
    unfolding f c u g by (simp only: Let_def list.set insert_iff empty_iff simp_thms)
  finally show ?thesis .
qed

lemma getPawnMoves_sound:
  assumes "pos \<in> set (getPawnMoves pc b)"
  shows "isValidPosition pos \<and> freeOrOpponent b (color pc) pos \<and> pos \<noteq> position pc"
proof -
  let ?x = "px (position pc)" and ?y = "py (position pc)" and ?z = "pz (position pc)"
  let ?d = "pawnDirection (color pc)"
  from assms have m: "(isValidPosition (mkPos ?x (?y + ?d) ?z) \<and> getPiece b (mkPos ?x (?y + ?d) ?z) = None \<and>
         (pos = mkPos ?x (?y + ?d) ?z \<or>
          (pos = mkPos ?x (?y + 2 * ?d) ?z \<and> hasMoved pc \<noteq> Some True \<and>
           isValidPosition (mkPos ?x (?y + 2 * ?d) ?z) \<and> getPiece b (mkPos ?x (?y + 2 * ?d) ?z) = None))) \<or>
      (pos \<in> {mkPos (?x - 1) (?y + ?d) ?z, mkPos (?x + 1) (?y + ?d) ?z} \<and>
         isValidPosition pos \<and> opponentAt b (color pc) pos) \<or>
      (pos = mkPos ?x ?y (?z + ?d) \<and> isValidPosition pos \<and> getPiece b pos = None) \<or>
      (pos \<in> {mkPos (?x - 1) (?y + ?d) (?z + 1), mkPos (?x + 1) (?y + ?d) (?z + 1),
                mkPos (?x - 1) (?y + ?d) (?z - 1), mkPos (?x + 1) (?y + ?d) (?z - 1)} \<and>
         isValidPosition pos \<and> opponentAt b (color pc) pos)"
    by (simp only: getPawnMoves_iff Let_def)
  have free: "\<And>p. getPiece b p = None \<Longrightarrow> freeOrOpponent b (color pc) p"
    by (simp add: freeOrOpponent_def)
  from m have "isValidPosition pos \<and> freeOrOpponent b (color pc) pos"
    using free opponentAt_free by blast
  moreover have "pos \<noteq> position pc"
  proof
    assume e: "pos = position pc"
    have d: "?d = 1 \<or> ?d = - 1" by (rule pawnDirection_cases)
    from m have "py pos = ?y + ?d \<or> py pos = ?y + 2 * ?d \<or> pz pos = ?z + ?d"
      by (auto simp: mkPos_def)
    moreover from e have "py pos = ?y" "pz pos = ?z" by simp_all
    ultimately show False using d by auto
  qed
  ultimately show ?thesis by simp
qed

lemma getValidMoves_sound:
  "\<exists>ms. getValidMoves pc b = Some ms \<and>
           (\<forall>pos \<in> set ms. isValidPosition pos \<and> pos \<noteq> position pc \<and>
                (\<forall>q. getPiece b pos = Some q \<longrightarrow> color q \<noteq> color pc))"
proof (cases "ptype pc")
  case PAWN
  then show ?thesis
    using getPawnMoves_sound [of _ pc b]
    by (simp add: getValidMoves_def freeOrOpponent_iff)
next
  case ROOK
  then show ?thesis
    using rays_sound [OF rookDirections_nonzero, of _ "position pc" b "color pc"]
    by (simp add: getValidMoves_def getRookMoves_eq freeOrOpponent_iff)
next
  case KNIGHT
  then show ?thesis
    using offsets_sound [OF knightOffsets_nonzero, of _ b "color pc" "position pc"]
    by (simp add: getValidMoves_def getKnightMoves_def freeOrOpponent_iff)
next
  case BISHOP
  then show ?thesis
    using rays_sound [OF bishopDirections_nonzero, of _ "position pc" b "color pc"]
    by (simp add: getValidMoves_def getBishopMoves_eq freeOrOpponent_iff)
next
  case QUEEN
  then show ?thesis
    using rays_sound [OF rookDirections_nonzero, of _ "position pc" b "color pc"]
          rays_sound [OF bishopDirections_nonzero, of _ "position pc" b "color pc"]
    by (simp add: getValidMoves_def getQueenMoves_eq freeOrOpponent_iff) blast
next
  case KING
  then show ?thesis
    using offsets_sound [OF kingOffsets_nonzero, of _ b "color pc" "position pc"]
    by (simp add: getValidMoves_def getKingMoves_def freeOrOpponent_iff)
qed

section \<open>The algebraic notation\<close>

lemma showInt_digit: "0 \<le> v \<Longrightarrow> v < 10 \<Longrightarrow> showInt v = [digitChar (nat v)]"
  by (simp add: showInt_def showNat.simps)

lemma digitChar_not_plus: "d < 10 \<Longrightarrow> digitChar d \<noteq> CHR ''+''"
proof
  assume "d < 10" and "digitChar d = CHR ''+''"
  then have "(of_char (CHR ''+'') :: nat) = 48 + d" using digitChar_code [of d] by (simp only:)
  then show False by simp
qed

lemma digitChar_not_space: "d < 10 \<Longrightarrow> \<not> isStrWhiteSpace (digitChar d)"
  by (simp add: isStrWhiteSpace_def digitChar_code)

lemma radixDigit_digitChar: "d < 10 \<Longrightarrow> radixDigit 10 (digitChar d) = Some d"
  by (simp add: radixDigit_def digitChar_code)

lemma parseInt_digitChar:
  assumes "d < 10"
  shows "parseInt [digitChar d] = Some (int d)"
  using digitChar_not_minus [OF assms] digitChar_not_plus [OF assms]
    digitChar_not_space [OF assms] radixDigit_digitChar [OF assms]
  by (simp add: parseInt_def digitsValue_def)

lemma upperCode_file: "1 \<le> v \<Longrightarrow> v \<le> 8 \<Longrightarrow> upperCode (char_of (64 + v)) = 64 + v"
  by (simp add: upperCode_def)

lemma notation_roundtrip:
  assumes "isValidPosition p"
  shows "notationToPosition (positionToNotation p) = Some p"
proof -
  from assms have x: "1 \<le> px p" "px p \<le> 8" and y: "0 \<le> py p" "py p < 10" "1 \<le> py p" "py p \<le> 8"
    and z: "0 \<le> pz p" "pz p < 10" "1 \<le> pz p" "pz p \<le> 8"
    by (simp_all add: isValidPosition_def)
  have enc: "positionToNotation p =
      [char_of (65 + px p - 1), digitChar (nat (py p)), digitChar (nat (pz p))]"
    by (simp add: positionToNotation_def showInt_digit [OF y(1,2)] showInt_digit [OF z(1,2)])
  have py: "parseInt [digitChar (nat (py p))] = Some (py p)"
    using parseInt_digitChar [of "nat (py p)"] y by simp
  have pz: "parseInt [digitChar (nat (pz p))] = Some (pz p)"
    using parseInt_digitChar [of "nat (pz p)"] z by simp
  show ?thesis
    unfolding enc using x y z
    by (simp add: notationToPosition_def upperCode_file py pz)
qed

lemma char_of_A: "char_of (65 :: int) = CHR ''A''"
proof -
  have "(of_char (char_of (65 :: int)) :: int) = of_char (CHR ''A'')" by simp
  then show ?thesis by (simp only: of_char_eq_iff)
qed

lemma digitChar_1: "digitChar (Suc 0) = CHR ''1''"
proof -
  have "(of_char (digitChar (Suc 0)) :: nat) = of_char (CHR ''1'')" by (simp add: digitChar_code)
  then show ?thesis by (simp only: of_char_eq_iff)
qed

lemma notation_A11: "positionToNotation (mkPos 1 1 1) = ''A11''"
  by (simp add: positionToNotation_def mkPos_def showInt_digit char_of_A digitChar_1)

lemma notation_rejects:
  assumes "length s < 3 \<or>
           \<not> (1 \<le> upperCode (s ! 0) - 65 + 1 \<and> upperCode (s ! 0) - 65 + 1 \<le> 8) \<or>
           parseInt [s ! 1] \<notin> Some ` {1..8} \<or>
           parseInt (drop 2 s) \<notin> Some ` {1..8}"
  shows "notationToPosition s = None"
  using assms by (auto simp: notationToPosition_def Let_def split: option.splits)

section \<open>What makeMove computes\<close>

lemma legalDestinations_Some: "getValidMoves pc b = Some ms \<Longrightarrow> legalDestinations pc b = set ms"
  by (simp add: legalDestinations_def)

lemma attackLoop_eq:
  "attackLoop pcs b king = Some (\<exists>pc \<in> set pcs. position king \<in> legalDestinations pc b)"
proof (induction pcs)
  case Nil
  show ?case by simp
next
  case (Cons pc pcs)
  obtain ms where ms: "getValidMoves pc b = Some ms" using getValidMoves_total by blast
  have "list_ex (\<lambda>pos. arePositionsEqual pos (position king)) ms \<longleftrightarrow> position king \<in> set ms"
    by (auto simp: list_ex_iff arePositionsEqual_def position_fields_eq)
  with Cons ms show ?case by (simp add: legalDestinations_Some)
qed

lemma mobilityLoop_eq:
  "mobilityLoop pcs b = Some (\<exists>pc \<in> set pcs. legalDestinations pc b \<noteq> {})"
proof (induction pcs)
  case Nil
  show ?case by simp
next
  case (Cons pc pcs)
  obtain ms where ms: "getValidMoves pc b = Some ms" using getValidMoves_total by blast
  with Cons show ?case by (simp add: legalDestinations_Some)
qed

lemma findKing_specKingOf: "findKing b c = specKingOf b c"
  by (induction b) (auto simp: findKing_def getPiecesByColor_def)

lemma in_getPiecesByColor:
  "pc \<in> set (getPiecesByColor b c) \<longleftrightarrow> (\<exists>e \<in> set b. snd e = pc \<and> color pc = c)"
  by (induction b) (auto simp: getPiecesByColor_def)

lemma bex_getPiecesByColor:
  "(\<exists>pc \<in> set (getPiecesByColor b c). P pc) \<longleftrightarrow> (\<exists>e \<in> set b. color (snd e) = c \<and> P (snd e))"
  by (induction b) (auto simp: getPiecesByColor_def)

lemma color_opponentOf: "x = opponentOf c \<longleftrightarrow> x \<noteq> c"
  by (cases x; cases c) (simp_all add: opponentOf_def)

lemma isKingInCheck_eq: "isKingInCheck b c = Some (specKingInCheck b c)"
proof (cases "specKingOf b c")
  case None
  then show ?thesis
    by (simp add: isKingInCheck_def specKingInCheck_def findKing_specKingOf)
next
  case (Some king)
  have "(\<exists>pc \<in> set (getPiecesByColor b (opponentOf c)). position king \<in> legalDestinations pc b)
      \<longleftrightarrow> (\<exists>e \<in> set b. color (snd e) \<noteq> c \<and> position king \<in> legalDestinations (snd e) b)"
    by (simp only: bex_getPiecesByColor color_opponentOf)
  with Some show ?thesis
    by (simp add: isKingInCheck_def specKingInCheck_def findKing_specKingOf attackLoop_eq)
qed

lemma hasValidMoves_eq: "hasValidMoves g c = Some (specHasMoves (board g) c)"
  by (simp only: hasValidMoves_def specHasMoves_def mobilityLoop_eq bex_getPiecesByColor)

lemma updateGameState_eq:
  "updateGameState g = Some (g\<lparr>state := specState (board g) (currentTurn g)\<rparr>)"
  by (simp add: updateGameState_def isKingInCheck_eq hasValidMoves_eq specState_def)

lemma makeMove_eq:
  "makeMove g from to =
     (if state g = CHECKMATE \<or> state g = STALEMATE then Some (False, g)
      else case getPiece (board g) from of
        None \<Rightarrow> Some (False, g)
      | Some pc \<Rightarrow>
          if color pc \<noteq> currentTurn g \<or> to \<notin> legalDestinations pc (board g) then Some (False, g)
          else Some (True, afterMove g from to pc))"
proof (cases "getPiece (board g) from")
  case None
  then show ?thesis by (simp add: makeMove_def)
next
  case (Some pc)
  obtain ms where ms: "getValidMoves pc (board g) = Some ms" using getValidMoves_total by blast
  show ?thesis
    by (simp add: makeMove_def Some isValidMove_eq [OF ms] legalDestinations_Some [OF ms]
        updateGameState_eq afterMove_def Let_def)
qed

lemma makeMove_returns: "\<exists>r. makeMove g from to = Some r"
  by (cases "getPiece (board g) from") (auto simp: makeMove_eq)

lemma makeMove_accepted:
  assumes "makeMove g from to = Some (True, g')"
  obtains pc where "getPiece (board g) from = Some pc" and "color pc = currentTurn g"
    and "to \<in> legalDestinations pc (board g)" and "g' = afterMove g from to pc"
    and "state g \<noteq> CHECKMATE" and "state g \<noteq> STALEMATE"
  using assms by (auto simp: makeMove_eq split: if_splits option.splits)

lemma afterMove_simps [simp]:
  "board (afterMove g from to pc) = fst (movePiece (board g) from to)"
  "currentTurn (afterMove g from to pc) = opponentOf (currentTurn g)"
  "moves (afterMove g from to pc) =
     moves g @ [\<lparr>mfrom = from, mto = to, mpiece = relocated pc to,
                 capturedPiece = (if from = to then Some (relocated pc to) else getPiece (board g) to)\<rparr>]"
  "state (afterMove g from to pc) =
     specState (fst (movePiece (board g) from to)) (opponentOf (currentTurn g))"
  by (simp_all add: afterMove_def Let_def opponentOf_def)

lemma legalDestinations_sound:
  assumes "to \<in> legalDestinations pc b"
  shows "isValidPosition to \<and> to \<noteq> position pc \<and> (\<forall>q. getPiece b to = Some q \<longrightarrow> color q \<noteq> color pc)"
proof -
  from getValidMoves_sound [of pc b] obtain ms where ms: "getValidMoves pc b = Some ms"
    and s: "\<forall>pos \<in> set ms. isValidPosition pos \<and> pos \<noteq> position pc \<and>
                (\<forall>q. getPiece b pos = Some q \<longrightarrow> color q \<noteq> color pc)"
    by blast
  from assms ms have "to \<in> set ms" by (simp add: legalDestinations_def)
  with s show ?thesis by blast
qed

lemma movePiece_board_eq:
  "fst (movePiece b from to) =
     (case getPiece b from of
        None \<Rightarrow> b
      | Some pc \<Rightarrow> mapSet (mapDelete (mapDelete b (positionToKey from)) (positionToKey to))
                   (positionToKey to) (relocated pc to))"
proof (cases "getPiece b from")
  case None
  then show ?thesis by (simp add: movePiece_def removePiece_def getPiece_def Let_def)
next
  case (Some pc)
  then show ?thesis by (simp add: movePiece_board)
qed

lemma mapGet_in_set: "mapGet es k = Some v \<Longrightarrow> (k, v) \<in> set es"
  by (induction es) (auto split: if_splits)

lemma getPiece_in_pieces:
  assumes "getPiece b pos = Some pc" and "color pc = c"
  shows "pc \<in> set (getPiecesByColor b c)"
proof -
  from assms(1) have "(positionToKey pos, pc) \<in> set b"
    by (simp add: getPiece_def mapGet_in_set)
  then have "pc \<in> snd ` set b" by force
  with assms(2) show ?thesis by (simp add: getPiecesByColor_def)
qed

lemma playMoves_step:
  assumes "getPiece (board g) from = Some pc" and "color pc = currentTurn g"
    and "to \<in> legalDestinations pc (board g)"
    and "state g = ACTIVE \<or> state g = specState (board g) (currentTurn g)"
  shows "makeMove g from to = Some (True, afterMove g from to pc)"
proof -
  have "pc \<in> set (getPiecesByColor (board g) (currentTurn g))"
    using assms(1,2) by (rule getPiece_in_pieces)
  then obtain e where "e \<in> set (board g)" "snd e = pc" "color pc = currentTurn g"
    unfolding in_getPiecesByColor by blast
  with assms(3) have "specHasMoves (board g) (currentTurn g)"
    unfolding specHasMoves_def by (intro bexI [of _ e]) auto
  then have "specState (board g) (currentTurn g) \<noteq> CHECKMATE \<and>
      specState (board g) (currentTurn g) \<noteq> STALEMATE"
    by (simp add: specState_def)
  with assms(4) have "state g \<noteq> CHECKMATE \<and> state g \<noteq> STALEMATE" by auto
  with assms(1-3) show ?thesis by (simp add: makeMove_eq)
qed

lemma pawn_destination:
  "ptype pc = PAWN \<Longrightarrow> to \<in> set (getPawnMoves pc b) \<Longrightarrow> to \<in> legalDestinations pc b"
  by (simp add: legalDestinations_def getValidMoves_def)

lemma knight_destination:
  "ptype pc = KNIGHT \<Longrightarrow> to \<in> set (getKnightMoves pc b) \<Longrightarrow> to \<in> legalDestinations pc b"
  by (simp add: legalDestinations_def getValidMoves_def)

lemma setup_a_pawn_accept:
  assumes "to \<in> set [mkPos 1 3 1, mkPos 1 4 1, mkPos 1 2 2]"
  shows "makeMove createGame (mkPos 1 2 1) to
           = Some (True, afterMove createGame (mkPos 1 2 1) to (mkPiece PAWN WHITE 1 2 1 (Some False)))"
proof (rule playMoves_step)
  show "getPiece (board createGame) (mkPos 1 2 1) = Some (mkPiece PAWN WHITE 1 2 1 (Some False))"
    by (simp add: createGame_def setupBoard_list)
  show "color (mkPiece PAWN WHITE 1 2 1 (Some False)) = currentTurn createGame"
    by (simp add: createGame_def)
  have "getPawnMoves (mkPiece PAWN WHITE 1 2 1 (Some False)) setupBoard
      = [mkPos 1 3 1, mkPos 1 4 1, mkPos 1 2 2]"
    by (simp add: getPawnMoves_def pawnDirection_def Let_def setupBoard_list)
  with assms show "to \<in> legalDestinations (mkPiece PAWN WHITE 1 2 1 (Some False)) (board createGame)"
    by (intro pawn_destination) (simp_all add: createGame_def)
  show "state createGame = ACTIVE \<or> state createGame = specState (board createGame) (currentTurn createGame)"
    by (simp add: createGame_def)
qed

lemma createGame_simps [simp]:
  "board createGame = setupBoard" "currentTurn createGame = WHITE"
  "moves createGame = []" "state createGame = ACTIVE"
  by (simp_all add: createGame_def)

lemma setup_a_pawn_lookup:
  "getPiece (board createGame) (mkPos 1 2 1) = Some (mkPiece PAWN WHITE 1 2 1 (Some False))"
  by (simp add: createGame_def setupBoard_list)

lemma setup_a_pawn_moves:
  "getPawnMoves (mkPiece PAWN WHITE 1 2 1 (Some False)) setupBoard
     = [mkPos 1 3 1, mkPos 1 4 1, mkPos 1 2 2]"
  by (simp add: getPawnMoves_def pawnDirection_def Let_def setupBoard_list)

lemma pawn_double_step_iff:
  "mkPos (px (position pc)) (py (position pc) + 2 * pawnDirection (color pc)) (pz (position pc))
     \<in> set (getPawnMoves pc b) \<longleftrightarrow>
   hasMoved pc \<noteq> Some True \<and>
   isValidPosition (mkPos (px (position pc)) (py (position pc) + pawnDirection (color pc)) (pz (position pc))) \<and>
   getPiece b (mkPos (px (position pc)) (py (position pc) + pawnDirection (color pc)) (pz (position pc))) = None \<and>
   isValidPosition (mkPos (px (position pc)) (py (position pc) + 2 * pawnDirection (color pc)) (pz (position pc))) \<and>
   getPiece b (mkPos (px (position pc)) (py (position pc) + 2 * pawnDirection (color pc)) (pz (position pc))) = None"
proof -
  have "pawnDirection (color pc) = 1 \<or> pawnDirection (color pc) = - 1"
    by (rule pawnDirection_cases)
  then show ?thesis
    by (auto simp: getPawnMoves_iff Let_def)
qed

lemma moved_pawn_no_double_step:
  assumes "makeMove g from to = Some (True, g')"
    and "getPiece (board g) from = Some pc" and "ptype pc = PAWN" and "hasMoved pc \<noteq> None"
  shows "\<exists>q ms. getPiece (board g') to = Some q \<and> ptype q = PAWN \<and> color q = color pc \<and>
           position q = to \<and> hasMoved q = Some True \<and> getValidMoves q (board g') = Some ms \<and>
           mkPos (px to) (py to + 2 * pawnDirection (color pc)) (pz to) \<notin> set ms"
proof -
  from assms(1) obtain pc' where pc': "getPiece (board g) from = Some pc'"
    and g': "g' = afterMove g from to pc'"
    by (rule makeMove_accepted)
  from pc' assms(2) have [simp]: "pc' = pc" by simp
  let ?q = "relocated pc to"
  have q: "getPiece (board g') to = Some ?q"
    by (simp add: g' getPiece_movePiece [OF assms(2)])
  have h: "hasMoved ?q = Some True" using assms(4) by simp
  have ms: "getValidMoves ?q (board g') = Some (getPawnMoves ?q (board g'))"
    using assms(3) by (simp add: getValidMoves_def)
  have "mkPos (px (position ?q)) (py (position ?q) + 2 * pawnDirection (color ?q)) (pz (position ?q))
      \<notin> set (getPawnMoves ?q (board g'))"
    unfolding pawn_double_step_iff using h by simp
  then have "mkPos (px to) (py to + 2 * pawnDirection (color pc)) (pz to)
      \<notin> set (getPawnMoves ?q (board g'))"
    by simp
  with q h ms assms(3) show ?thesis by simp
qed

lemma setup_b_knight_accept:
  "makeMove createGame (mkPos 2 1 1) (mkPos 1 3 1)
     = Some (True, afterMove createGame (mkPos 2 1 1) (mkPos 1 3 1) (mkPiece KNIGHT WHITE 2 1 1 None))"
proof (rule playMoves_step)
  show "getPiece (board createGame) (mkPos 2 1 1) = Some (mkPiece KNIGHT WHITE 2 1 1 None)"
    by (simp add: createGame_def setupBoard_list)
  show "color (mkPiece KNIGHT WHITE 2 1 1 None) = currentTurn createGame"
    by (simp add: createGame_def)
  have "getKnightMoves (mkPiece KNIGHT WHITE 2 1 1 None) setupBoard
      = [mkPos 3 3 1, mkPos 1 3 1, mkPos 3 1 3, mkPos 4 1 2, mkPos 1 1 3, mkPos 2 2 3, mkPos 2 3 2]"
    by (simp add: getKnightMoves_def knightOffsets_def setupBoard_list)
  then show "mkPos 1 3 1 \<in> legalDestinations (mkPiece KNIGHT WHITE 2 1 1 None) (board createGame)"
    by (intro knight_destination) (simp_all add: createGame_def)
  show "state createGame = ACTIVE \<or> state createGame = specState (board createGame) (currentTurn createGame)"
    by (simp add: createGame_def)
qed

section \<open>Kings and the entries of the board\<close>

lemma in_mapDelete: "(k', v) \<in> set (mapDelete es k) \<longleftrightarrow> (k', v) \<in> set es \<and> k' \<noteq> k"
  by (induction es) (auto split: if_splits)

lemma set_mapDelete: "set (mapDelete es k) = {e \<in> set es. fst e \<noteq> k}"
proof (rule set_eqI)
  fix e :: "'a \<times> 'b"
  obtain k' v where e: "e = (k', v)" by (cases e)
  show "e \<in> set (mapDelete es k) \<longleftrightarrow> e \<in> {e \<in> set es. fst e \<noteq> k}"
    unfolding e by (simp add: in_mapDelete)
qed

lemma mapGet_None_iff: "mapGet es k = None \<longleftrightarrow> k \<notin> fst ` set es"
  by (induction es) (auto split: if_splits)

lemma mapSet_absent: "mapGet es k = None \<Longrightarrow> mapSet es k v = es @ [(k, v)]"
  by (induction es) (auto split: if_splits)

lemma distinct_mapDelete: "distinct (map fst es) \<Longrightarrow> distinct (map fst (mapDelete es k))"
  by (induction es) (auto simp: set_mapDelete)

lemma mapGet_distinct: "distinct (map fst es) \<Longrightarrow> (k, v) \<in> set es \<Longrightarrow> mapGet es k = Some v"
  by (induction es) (auto simp: rev_image_eqI)

lemma movePiece_board_append:
  assumes "getPiece b from = Some pc"
  shows "fst (movePiece b from to) =
           mapDelete (mapDelete b (positionToKey from)) (positionToKey to)
             @ [(positionToKey to, relocated pc to)]"
  by (simp add: movePiece_board [OF assms] mapSet_absent mapGet_mapDelete)

lemma distinct_movePiece:
  assumes "distinct (map fst b)" and "getPiece b from = Some pc"
  shows "distinct (map fst (fst (movePiece b from to)))"
  using assms(1)
  by (simp add: movePiece_board_append [OF assms(2)] distinct_mapDelete set_mapDelete image_iff)

lemma hasKing_iff:
  "hasKing b c \<longleftrightarrow> (\<exists>e \<in> set b. ptype (snd e) = KING \<and> color (snd e) = c)"
  by (simp add: hasKing_def list_ex_iff)

lemma hasKing_movePiece:
  assumes d: "distinct (map fst b)" and pc: "getPiece b from = Some pc"
    and k: "hasKing b c" and spare: "\<forall>q. getPiece b to = Some q \<longrightarrow> ptype q \<noteq> KING"
  shows "hasKing (fst (movePiece b from to)) c"
proof -
  from k obtain key p where e: "(key, p) \<in> set b" and p: "ptype p = KING" "color p = c"
    by (auto simp: hasKing_iff)
  from d e have get: "mapGet b key = Some p" by (rule mapGet_distinct)
  let ?b' = "fst (movePiece b from to)"
  have b': "set ?b' = {e \<in> set b. fst e \<noteq> positionToKey from \<and> fst e \<noteq> positionToKey to}
      \<union> {(positionToKey to, relocated pc to)}"
    by (auto simp: movePiece_board_append [OF pc] set_mapDelete)
  show ?thesis
  proof (cases "key = positionToKey from")
    case True
    with get pc have "p = pc" by (simp add: getPiece_def)
    with p have "ptype (relocated pc to) = KING \<and> color (relocated pc to) = c" by simp
    moreover have "(positionToKey to, relocated pc to) \<in> set ?b'" by (simp add: b')
    ultimately show ?thesis unfolding hasKing_iff by force
  next
    case False
    have "key \<noteq> positionToKey to"
    proof
      assume "key = positionToKey to"
      with get have "getPiece b to = Some p" by (simp add: getPiece_def)
      with spare p(1) show False by simp
    qed
    with False e have "(key, p) \<in> set ?b'" by (simp add: b')
    with p show ?thesis unfolding hasKing_iff by force
  qed
qed

lemma distinct_setupBoard: "distinct (map fst setupBoard)"
  by (simp add: setupBoard_list)

lemma kingSparing_invariant:
  "kingSparing g \<Longrightarrow>
     distinct (map fst (board g)) \<and> hasKing (board g) WHITE \<and> hasKing (board g) BLACK"
proof (induction rule: kingSparing.induct)
  case start
  show ?case
    by (simp add: distinct_setupBoard hasKing_def setupBoard_list)
next
  case (step g "from" to g')
  from step.hyps(2) obtain pc where pc: "getPiece (board g) from = Some pc"
    and g': "g' = afterMove g from to pc"
    by (rule makeMove_accepted)
  from step.IH have d: "distinct (map fst (board g))"
    and w: "hasKing (board g) WHITE" and b: "hasKing (board g) BLACK"
    by simp_all
  show ?case
    using distinct_movePiece [OF d pc, of to]
      hasKing_movePiece [OF d pc w step.hyps(3)] hasKing_movePiece [OF d pc b step.hyps(3)]
    by (simp add: g')
qed

section \<open>Evaluating single rays and boards\<close>

lemma raySquares_mkPos:
  "raySquares (mkPos a b d) (mkPos a' b' d') brd c =
     (if (a' = 0 \<and> b' = 0 \<and> d' = 0) \<or> \<not> isValidPosition (mkPos (a + a') (b + b') (d + d')) then []
      else case getPiece brd (mkPos (a + a') (b + b') (d + d')) of
             None \<Rightarrow> mkPos (a + a') (b + b') (d + d')
                      # raySquares (mkPos (a + a') (b + b') (d + d')) (mkPos a' b' d') brd c
           | Some q \<Rightarrow> if color q \<noteq> c then [mkPos (a + a') (b + b') (d + d')] else [])"
  by (subst raySquares.simps) (simp add: zeroDir_def split: option.split)

lemma rook_ray_destination:
  assumes "ptype pc = ROOK \<or> ptype pc = QUEEN" and "d \<in> set rookDirections"
    and "to \<in> set (raySquares (position pc) d b (color pc))"
  shows "to \<in> legalDestinations pc b"
  using assms
  by (auto simp: legalDestinations_def getValidMoves_def getRookMoves_eq getQueenMoves_eq)

lemma bishop_ray_destination:
  assumes "ptype pc = BISHOP \<or> ptype pc = QUEEN" and "d \<in> set bishopDirections"
    and "to \<in> set (raySquares (position pc) d b (color pc))"
  shows "to \<in> legalDestinations pc b"
  using assms
  by (auto simp: legalDestinations_def getValidMoves_def getBishopMoves_eq getQueenMoves_eq)

lemma king_destination:
  "ptype pc = KING \<Longrightarrow> to \<in> set (getKingMoves pc b) \<Longrightarrow> to \<in> legalDestinations pc b"
  by (simp add: legalDestinations_def getValidMoves_def)

lemma board_Cons_eval [simp]:
  "mapDelete ((positionToKey p, v) # es) (positionToKey q) =
     (if p = q then mapDelete es (positionToKey q) else (positionToKey p, v) # mapDelete es (positionToKey q))"
  "mapSet ((positionToKey p, v) # es) (positionToKey q) w =
     (if p = q then (positionToKey q, w) # es else (positionToKey p, v) # mapSet es (positionToKey q) w)"
  by simp_all

section \<open>The initial layout\<close>

text \<open>
  Claim C3. \<open>setupBoard()\<close> is claimed to put Black's back rank on layer \<open>z = 8\<close>
  (and the pawns of both colors on \<open>z = 1\<close>). The source says so too: the call is
  \<open>setupBaseLayer(board, 8, PieceColor.BLACK) // Black pieces at z=8\<close>. But
  \<open>setupBaseLayer\<close> never reads its parameter \<open>z\<close>; every piece literal is written
  with \<open>z: 1\<close>. The theorem evaluates the code: the eight black pieces other than pawns
  stand on \<open>y = 8\<close>, \<open>z = 1\<close>.
\<close>

theorem setupBoard_black_back_rank:
  "map (\<lambda>pc. (ptype pc, px (position pc), py (position pc), pz (position pc)))
     (filter (\<lambda>pc. color pc = BLACK \<and> ptype pc \<noteq> PAWN) (map snd setupBoard))
   = [(ROOK, 1, 8, 1), (ROOK, 8, 8, 1), (KNIGHT, 2, 8, 1), (KNIGHT, 7, 8, 1),
      (BISHOP, 3, 8, 1), (BISHOP, 6, 8, 1), (QUEEN, 4, 8, 1), (KING, 5, 8, 1)]"
  by (simp add: setupBoard_eval mkPiece_def)

section \<open>Rejected requests\<close>

text \<open>
  Claim C5. For every game whose state is checkmate or stalemate, \<open>makeMove\<close> returns
  false for all pairs of coordinates and leaves board, turn, history and state unchanged:
  the call returns, its result is \<open>False\<close>, and the game it leaves is the game it got.
\<close>

theorem terminal_game_rejects:
  "state g = CHECKMATE \<or> state g = STALEMATE \<Longrightarrow> makeMove g from to = Some (False, g)"
  by (simp add: makeMove_def)

theorem terminal_game_rejects_witness:
  "makeMove (createGame\<lparr>state := CHECKMATE\<rparr>) (mkPos 1 2 1) (mkPos 1 3 1)
     = Some (False, createGame\<lparr>state := CHECKMATE\<rparr>)"
  using terminal_game_rejects [of "createGame\<lparr>state := CHECKMATE\<rparr>" "mkPos 1 2 1" "mkPos 1 3 1"]
  by simp

text \<open>
  Claim C6. If there is no piece at \<open>from\<close>, or the piece there has a color other than
  \<open>currentTurn\<close>, or \<open>to\<close> is not among that piece's legal destinations, then
  \<open>makeMove\<close> returns false and the game (board, turn and history included) is left
  exactly as it was.
\<close>

theorem invalid_request_rejected:
  assumes "getPiece (board g) from = None \<or>
           (\<exists>pc. getPiece (board g) from = Some pc \<and>
                 (color pc \<noteq> currentTurn g \<or>
                  (\<exists>ms. getValidMoves pc (board g) = Some ms \<and> to \<notin> set ms)))"
  shows "makeMove g from to = Some (False, g)"
  using assms by (auto simp: makeMove_def isValidMove_eq)

theorem invalid_request_rejected_witness:
  "makeMove createGame (mkPos 1 7 1) (mkPos 1 5 1) = Some (False, createGame)"
proof -
  have "getPiece (board createGame) (mkPos 1 7 1) = Some (mkPiece PAWN BLACK 1 7 1 (Some False))"
    by (simp add: createGame_def getPiece_setup_black_pawn)
  moreover have "color (mkPiece PAWN BLACK 1 7 1 (Some False)) \<noteq> currentTurn createGame"
    by (simp add: createGame_def mkPiece_def)
  ultimately show ?thesis
    by (intro invalid_request_rejected) blast
qed

section \<open>Every destination is a legal square\<close>

text \<open>
  Claim C10. For every piece of any kind whose position is within the board and for every
  board, \<open>getValidMoves\<close> returns, and every coordinate it returns has all three
  components in 1..8, differs from the piece's own position, and is not occupied by a
  piece of the same color.
\<close>

theorem getValidMoves_destinations:
  assumes "isValidPosition (position pc)"
  shows "\<exists>ms. getValidMoves pc b = Some ms \<and>
           (\<forall>pos \<in> set ms. isValidPosition pos \<and> pos \<noteq> position pc \<and>
                (\<forall>q. getPiece b pos = Some q \<longrightarrow> color q \<noteq> color pc))"
  by (rule getValidMoves_sound)

theorem getValidMoves_destinations_witness:
  "isValidPosition (position (mkPiece KING WHITE 1 1 1 (Some False))) \<and>
   (\<exists>ms. getValidMoves (mkPiece KING WHITE 1 1 1 (Some False))
            (addPiece (addPiece createEmptyBoard (mkPiece KING WHITE 1 1 1 (Some False)))
               (mkPiece PAWN WHITE 1 2 1 (Some False))) = Some ms \<and>
         (\<forall>pos \<in> set ms. isValidPosition pos \<and>
              pos \<noteq> position (mkPiece KING WHITE 1 1 1 (Some False)) \<and>
              (\<forall>q. getPiece (addPiece (addPiece createEmptyBoard (mkPiece KING WHITE 1 1 1 (Some False)))
                              (mkPiece PAWN WHITE 1 2 1 (Some False))) pos = Some q \<longrightarrow>
                   color q \<noteq> color (mkPiece KING WHITE 1 1 1 (Some False)))))"
proof -
  have v: "isValidPosition (position (mkPiece KING WHITE 1 1 1 (Some False)))"
    by (simp add: mkPiece_def isValidPosition_def)
  from getValidMoves_destinations [OF v] v show ?thesis by blast
qed

section \<open>Sliding along a rook ray\<close>






text \<open>
  Claim C9. For every position \<open>p\<close> with all axes in 1..8,
  \<open>notationToPosition (positionToNotation p) = p\<close>, and (1,1,1) is encoded as \<open>A11\<close>;
  \<open>notationToPosition\<close> returns an absent value for every string shorter than three
  characters and for every string whose decoded \<open>x\<close> (the code of the upper-cased first
  character minus 64), \<open>y\<close> (\<open>parseInt\<close> of the second character) or \<open>z\<close> (\<open>parseInt\<close>
  of the rest) is not a number in 1..8.
\<close>

theorem notation_codec:
  "(isValidPosition p \<longrightarrow> notationToPosition (positionToNotation p) = Some p) \<and>
   positionToNotation (mkPos 1 1 1) = ''A11'' \<and>
   (length s < 3 \<or>
    \<not> (1 \<le> upperCode (s ! 0) - 65 + 1 \<and> upperCode (s ! 0) - 65 + 1 \<le> 8) \<or>
    parseInt [s ! 1] \<notin> Some ` {1..8} \<or>
    parseInt (drop 2 s) \<notin> Some ` {1..8}
    \<longrightarrow> notationToPosition s = None)"
  using notation_roundtrip [of p] notation_A11 notation_rejects [of s] by blast

theorem notation_codec_witness:
  "isValidPosition (mkPos 3 5 7) \<and>
   notationToPosition (positionToNotation (mkPos 3 5 7)) = Some (mkPos 3 5 7) \<and>
   parseInt (drop 2 ''A19'') \<notin> Some ` {1..8} \<and>
   notationToPosition ''A19'' = None"
proof -
  have v: "isValidPosition (mkPos 3 5 7)"
    by (simp add: isValidPosition_def mkPos_def)
  have z: "parseInt (drop 2 ''A19'') \<notin> Some ` {1..8}"
  proof -
    have "parseInt (drop 2 ''A19'') = Some 9"
      by (simp add: parseInt_def isStrWhiteSpace_def radixDigit_def digitsValue_def)
    then show ?thesis by auto
  qed
  from notation_codec [of "mkPos 3 5 7" "''A19''"] v z show ?thesis by blast
qed

section \<open>The state after a move\<close>

text \<open>
  Claim C4. After every \<open>makeMove\<close> call that returns true, \<open>game.state\<close> equals the
  classification of the board and the new side to move: check if that side's king
  coordinate is in some opposing piece's legal-destination set and some piece of that side
  has a destination; checkmate if the king is attacked and no piece of that side has a
  destination; active if the king is not attacked and some piece has a destination;
  stalemate otherwise; a missing king counts as not in check. The classification is
  \<open>specState\<close>, stated over the board's entries and the legal-destination sets; the
  side it is taken for is the other side than before the move. The example below is a
  rook move that gives check.
\<close>

theorem state_after_accepted_move:
  assumes "makeMove g from to = Some (True, g')"
  shows "state g' = specState (board g') (currentTurn g') \<and> currentTurn g' \<noteq> currentTurn g"
proof -
  from assms obtain pc where "g' = afterMove g from to pc" by (rule makeMove_accepted)
  then show ?thesis by (simp add: opponentOf_def)
qed

theorem state_after_accepted_move_witness:
  "makeMove
     \<lparr>board = [(positionToKey (mkPos 1 1 1), mkPiece ROOK WHITE 1 1 1 (Some False)),
               (positionToKey (mkPos 4 1 1), mkPiece KING WHITE 4 1 1 (Some False)),
               (positionToKey (mkPos 5 8 1), mkPiece KING BLACK 5 8 1 (Some False))],
      currentTurn = WHITE, moves = [], state = ACTIVE\<rparr>
     (mkPos 1 1 1) (mkPos 1 8 1)
   = Some (True,
       afterMove
         \<lparr>board = [(positionToKey (mkPos 1 1 1), mkPiece ROOK WHITE 1 1 1 (Some False)),
                   (positionToKey (mkPos 4 1 1), mkPiece KING WHITE 4 1 1 (Some False)),
                   (positionToKey (mkPos 5 8 1), mkPiece KING BLACK 5 8 1 (Some False))],
          currentTurn = WHITE, moves = [], state = ACTIVE\<rparr>
         (mkPos 1 1 1) (mkPos 1 8 1) (mkPiece ROOK WHITE 1 1 1 (Some False))) \<and>
   state (afterMove
         \<lparr>board = [(positionToKey (mkPos 1 1 1), mkPiece ROOK WHITE 1 1 1 (Some False)),
                   (positionToKey (mkPos 4 1 1), mkPiece KING WHITE 4 1 1 (Some False)),
                   (positionToKey (mkPos 5 8 1), mkPiece KING BLACK 5 8 1 (Some False))],
          currentTurn = WHITE, moves = [], state = ACTIVE\<rparr>
         (mkPos 1 1 1) (mkPos 1 8 1) (mkPiece ROOK WHITE 1 1 1 (Some False))) = CHECK"
proof -
  let ?R = "mkPiece ROOK WHITE 1 1 1 (Some False)"
  let ?B = "[(positionToKey (mkPos 1 1 1), ?R),
             (positionToKey (mkPos 4 1 1), mkPiece KING WHITE 4 1 1 (Some False)),
             (positionToKey (mkPos 5 8 1), mkPiece KING BLACK 5 8 1 (Some False))]"
  let ?G = "\<lparr>board = ?B, currentTurn = WHITE, moves = [], state = ACTIVE\<rparr>"
  let ?G' = "afterMove ?G (mkPos 1 1 1) (mkPos 1 8 1) ?R"
  have a: "makeMove ?G (mkPos 1 1 1) (mkPos 1 8 1) = Some (True, ?G')"
  proof (rule playMoves_step)
    show "getPiece (board ?G) (mkPos 1 1 1) = Some ?R" by simp
    show "color ?R = currentTurn ?G" by simp
    have "mkPos 1 8 1 \<in> set (raySquares (position ?R) (mkPos 0 1 0) ?B (color ?R))"
      by (simp add: raySquares_mkPos)
    then show "mkPos 1 8 1 \<in> legalDestinations ?R (board ?G)"
      by (intro rook_ray_destination [of _ "mkPos 0 1 0"]) (simp_all add: rookDirections_def)
    show "state ?G = ACTIVE \<or> state ?G = specState (board ?G) (currentTurn ?G)" by simp
  qed
  have b: "board ?G' = [(positionToKey (mkPos 4 1 1), mkPiece KING WHITE 4 1 1 (Some False)),
      (positionToKey (mkPos 5 8 1), mkPiece KING BLACK 5 8 1 (Some False)),
      (positionToKey (mkPos 1 8 1), relocated ?R (mkPos 1 8 1))]"
    by (simp add: movePiece_board_eq)
  have att: "mkPos 5 8 1 \<in> legalDestinations (relocated ?R (mkPos 1 8 1)) (board ?G')"
  proof -
    have "mkPos 5 8 1 \<in> set (raySquares (position (relocated ?R (mkPos 1 8 1))) (mkPos 1 0 0)
        (board ?G') (color (relocated ?R (mkPos 1 8 1))))"
      unfolding b by (simp add: raySquares_mkPos)
    then show ?thesis
      by (intro rook_ray_destination [of _ "mkPos 1 0 0"]) (simp_all add: rookDirections_def)
  qed
  have mob: "mkPos 5 7 1 \<in> legalDestinations (mkPiece KING BLACK 5 8 1 (Some False)) (board ?G')"
  proof -
    have "mkPos 5 7 1 \<in> set (getKingMoves (mkPiece KING BLACK 5 8 1 (Some False)) (board ?G'))"
      unfolding b by (simp add: getKingMoves_def kingOffsets_def)
    then show ?thesis by (intro king_destination) simp_all
  qed
  have chk: "specKingInCheck (board ?G') BLACK"
    unfolding specKingInCheck_def b using att [unfolded b] by simp
  have mv: "specHasMoves (board ?G') BLACK"
    unfolding specHasMoves_def b using mob [unfolded b] by auto
  have "specState (board ?G') (currentTurn ?G') = CHECK"
    using chk mv by (simp add: specState_def opponentOf_def)
  with state_after_accepted_move [OF a] have "state ?G' = CHECK" by simp
  with a show ?thesis by (rule conjI)
qed

section \<open>What an accepted move changes\<close>

text \<open>
  Claim C2 says that after every accepted move the destination holds the moved piece
  with \<open>hasMoved = true\<close>. \<open>movePiece\<close> sets the flag only on a piece object that
  has the property (\<open>if ('hasMoved' in piece)\<close>), and \<open>setupBaseLayer\<close> creates knights,
  bishops and queens without it: after the knight move from (2,1,1) to (1,3,1) in the
  initial game, which \<open>makeMove\<close> accepts, the knight on (1,3,1) still has no
  \<open>hasMoved\<close> property.
\<close>

theorem knight_keeps_no_hasMoved_counterexample:
  "map_option (hasMovedAt (mkPos 1 3 1)) (playMoves createGame [(mkPos 2 1 1, mkPos 1 3 1)])
     = Some (Some None)"
proof -
  have "getPiece (board createGame) (mkPos 2 1 1) = Some (mkPiece KNIGHT WHITE 2 1 1 None)"
    by (simp add: createGame_def setupBoard_list)
  then have "hasMovedAt (mkPos 1 3 1)
      (afterMove createGame (mkPos 2 1 1) (mkPos 1 3 1) (mkPiece KNIGHT WHITE 2 1 1 None)) = Some None"
    by (simp add: hasMovedAt_def getPiece_movePiece)
  then show ?thesis by (simp add: setup_b_knight_accept)
qed

text \<open>
  Claim C2, amended. For every game and every pair of coordinates for which \<open>makeMove\<close>
  returns true: \<open>moves.length\<close> has increased by exactly 1, \<open>currentTurn\<close> is the
  opposite color, the origin is empty, and the destination holds the piece that stood on
  the origin, with its position set to the destination and with \<open>hasMoved = true\<close> if
  the piece carried a \<open>hasMoved\<close> property; a piece without the property stays without.
\<close>

theorem accepted_move_effect:
  assumes "makeMove g from to = Some (True, g')"
  shows "\<exists>pc. getPiece (board g) from = Some pc \<and>
           length (moves g') = length (moves g) + 1 \<and>
           currentTurn g' = opponentOf (currentTurn g) \<and>
           getPiece (board g') from = None \<and>
           getPiece (board g') to
             = Some (pc\<lparr>position := to, hasMoved := (if hasMoved pc = None then None else Some True)\<rparr>)"
proof -
  from assms obtain pc where pc: "getPiece (board g) from = Some pc"
    and dest: "to \<in> legalDestinations pc (board g)" and g': "g' = afterMove g from to pc"
    by (rule makeMove_accepted)
  from dest have "\<forall>q. getPiece (board g) to = Some q \<longrightarrow> color q \<noteq> color pc"
    using legalDestinations_sound [of to pc "board g"] by simp
  with pc have ne: "from \<noteq> to" by auto
  have rel: "relocated pc to
      = pc\<lparr>position := to, hasMoved := (if hasMoved pc = None then None else Some True)\<rparr>"
    by (cases "hasMoved pc") (simp_all add: relocated_def)
  have "length (moves g') = length (moves g) + 1 \<and>
        currentTurn g' = opponentOf (currentTurn g) \<and>
        getPiece (board g') from = None \<and>
        getPiece (board g') to
          = Some (pc\<lparr>position := to, hasMoved := (if hasMoved pc = None then None else Some True)\<rparr>)"
    using ne by (simp add: g' getPiece_movePiece [OF pc] rel)
  with pc show ?thesis by blast
qed

theorem accepted_move_effect_witness:
  "makeMove createGame (mkPos 1 2 1) (mkPos 1 4 1)
     = Some (True, afterMove createGame (mkPos 1 2 1) (mkPos 1 4 1) (mkPiece PAWN WHITE 1 2 1 (Some False))) \<and>
   length (moves (afterMove createGame (mkPos 1 2 1) (mkPos 1 4 1) (mkPiece PAWN WHITE 1 2 1 (Some False)))) = 1 \<and>
   currentTurn (afterMove createGame (mkPos 1 2 1) (mkPos 1 4 1) (mkPiece PAWN WHITE 1 2 1 (Some False))) = BLACK \<and>
   getPiece (board (afterMove createGame (mkPos 1 2 1) (mkPos 1 4 1) (mkPiece PAWN WHITE 1 2 1 (Some False))))
     (mkPos 1 2 1) = None \<and>
   getPiece (board (afterMove createGame (mkPos 1 2 1) (mkPos 1 4 1) (mkPiece PAWN WHITE 1 2 1 (Some False))))
     (mkPos 1 4 1) = Some (mkPiece PAWN WHITE 1 4 1 (Some True))"
proof -
  let ?pawn = "mkPiece PAWN WHITE 1 2 1 (Some False)"
  let ?g' = "afterMove createGame (mkPos 1 2 1) (mkPos 1 4 1) ?pawn"
  have a: "makeMove createGame (mkPos 1 2 1) (mkPos 1 4 1) = Some (True, ?g')"
    by (rule setup_a_pawn_accept) simp
  have b: "getPiece (board createGame) (mkPos 1 2 1) = Some ?pawn"
    by (simp add: createGame_def setupBoard_list)
  have d: "?pawn\<lparr>position := mkPos 1 4 1, hasMoved := (if hasMoved ?pawn = None then None else Some True)\<rparr>
      = mkPiece PAWN WHITE 1 4 1 (Some True)"
    by (simp add: mkPiece_def mkPos_def)
  from accepted_move_effect [OF a] b have
    "length (moves ?g') = length (moves createGame) + 1 \<and>
     currentTurn ?g' = opponentOf (currentTurn createGame) \<and>
     getPiece (board ?g') (mkPos 1 2 1) = None \<and>
     getPiece (board ?g') (mkPos 1 4 1)
       = Some (?pawn\<lparr>position := mkPos 1 4 1, hasMoved := (if hasMoved ?pawn = None then None else Some True)\<rparr>)"
    by auto
  with a show ?thesis
    by (simp only: d) (simp add: createGame_def opponentOf_def)
qed

section \<open>The pawn in three dimensions\<close>

text \<open>
  Claim C7. In the initial board the legal destinations of the White pawn at (1,2,1)
  include (1,3,1), (1,4,1) and (1,2,2) (they are exactly these three). For every pawn on
  every board the double step \<open>(x, y + 2 dir, z)\<close> is offered exactly while \<open>hasMoved\<close>
  is not true and both the single-step and the double-step square are on the board and
  empty. After any accepted move of the pawn at (1,2,1), the pawn stands on the
  destination with \<open>hasMoved = true\<close>, and its destination set from the new square
  does not contain the two-step advance.
\<close>

theorem pawn_mobility:
  "getValidMovesForPosition createGame (mkPos 1 2 1) = Some [mkPos 1 3 1, mkPos 1 4 1, mkPos 1 2 2] \<and>
   (ptype pc = PAWN \<longrightarrow>
      (\<exists>ms. getValidMoves pc b = Some ms \<and>
         (mkPos (px (position pc)) (py (position pc) + 2 * pawnDirection (color pc)) (pz (position pc))
            \<in> set ms \<longleftrightarrow>
          hasMoved pc \<noteq> Some True \<and>
          isValidPosition (mkPos (px (position pc)) (py (position pc) + pawnDirection (color pc)) (pz (position pc))) \<and>
          getPiece b (mkPos (px (position pc)) (py (position pc) + pawnDirection (color pc)) (pz (position pc))) = None \<and>
          isValidPosition (mkPos (px (position pc)) (py (position pc) + 2 * pawnDirection (color pc)) (pz (position pc))) \<and>
          getPiece b (mkPos (px (position pc)) (py (position pc) + 2 * pawnDirection (color pc)) (pz (position pc))) = None))) \<and>
   (makeMove createGame (mkPos 1 2 1) to = Some (True, g') \<longrightarrow>
      (\<exists>q ms. getPiece (board g') to = Some q \<and> ptype q = PAWN \<and> color q = WHITE \<and>
          position q = to \<and> hasMoved q = Some True \<and> getValidMoves q (board g') = Some ms \<and>
          mkPos (px to) (py to + 2) (pz to) \<notin> set ms))"
proof (intro conjI impI)
  show "getValidMovesForPosition createGame (mkPos 1 2 1)
      = Some [mkPos 1 3 1, mkPos 1 4 1, mkPos 1 2 2]"
    using setup_a_pawn_lookup
    by (simp add: getValidMovesForPosition_def getValidMoves_def setup_a_pawn_moves)
next
  assume "ptype pc = PAWN"
  then have "getValidMoves pc b = Some (getPawnMoves pc b)" by (simp add: getValidMoves_def)
  then show "\<exists>ms. getValidMoves pc b = Some ms \<and>
         (mkPos (px (position pc)) (py (position pc) + 2 * pawnDirection (color pc)) (pz (position pc))
            \<in> set ms \<longleftrightarrow>
          hasMoved pc \<noteq> Some True \<and>
          isValidPosition (mkPos (px (position pc)) (py (position pc) + pawnDirection (color pc)) (pz (position pc))) \<and>
          getPiece b (mkPos (px (position pc)) (py (position pc) + pawnDirection (color pc)) (pz (position pc))) = None \<and>
          isValidPosition (mkPos (px (position pc)) (py (position pc) + 2 * pawnDirection (color pc)) (pz (position pc))) \<and>
          getPiece b (mkPos (px (position pc)) (py (position pc) + 2 * pawnDirection (color pc)) (pz (position pc))) = None)"
    using pawn_double_step_iff [of pc b] by blast
next
  assume a: "makeMove createGame (mkPos 1 2 1) to = Some (True, g')"
  from moved_pawn_no_double_step [OF a setup_a_pawn_lookup]
  show "\<exists>q ms. getPiece (board g') to = Some q \<and> ptype q = PAWN \<and> color q = WHITE \<and>
          position q = to \<and> hasMoved q = Some True \<and> getValidMoves q (board g') = Some ms \<and>
          mkPos (px to) (py to + 2) (pz to) \<notin> set ms"
    by (simp add: pawnDirection_def)
qed

theorem pawn_mobility_witness:
  "ptype (mkPiece PAWN WHITE 1 2 1 (Some False)) = PAWN \<and>
   (\<exists>ms. getValidMoves (mkPiece PAWN WHITE 1 2 1 (Some False)) setupBoard = Some ms \<and>
          mkPos 1 4 1 \<in> set ms) \<and>
   makeMove createGame (mkPos 1 2 1) (mkPos 1 4 1)
     = Some (True, afterMove createGame (mkPos 1 2 1) (mkPos 1 4 1) (mkPiece PAWN WHITE 1 2 1 (Some False))) \<and>
   (\<exists>q ms. getPiece (board (afterMove createGame (mkPos 1 2 1) (mkPos 1 4 1)
                               (mkPiece PAWN WHITE 1 2 1 (Some False)))) (mkPos 1 4 1) = Some q \<and>
      hasMoved q = Some True \<and>
      getValidMoves q (board (afterMove createGame (mkPos 1 2 1) (mkPos 1 4 1)
                               (mkPiece PAWN WHITE 1 2 1 (Some False)))) = Some ms \<and>
      mkPos 1 6 1 \<notin> set ms)"
proof -
  let ?pawn = "mkPiece PAWN WHITE 1 2 1 (Some False)"
  let ?g' = "afterMove createGame (mkPos 1 2 1) (mkPos 1 4 1) ?pawn"
  have p: "ptype ?pawn = PAWN" by simp
  have a: "makeMove createGame (mkPos 1 2 1) (mkPos 1 4 1) = Some (True, ?g')"
    by (rule setup_a_pawn_accept) simp
  note inst = pawn_mobility [of ?pawn setupBoard "mkPos 1 4 1" ?g']
  from inst p have "\<exists>ms. getValidMoves ?pawn setupBoard = Some ms \<and>
      (mkPos (px (position ?pawn)) (py (position ?pawn) + 2 * pawnDirection (color ?pawn)) (pz (position ?pawn))
         \<in> set ms \<longleftrightarrow>
       hasMoved ?pawn \<noteq> Some True \<and>
       isValidPosition (mkPos (px (position ?pawn)) (py (position ?pawn) + pawnDirection (color ?pawn)) (pz (position ?pawn))) \<and>
       getPiece setupBoard (mkPos (px (position ?pawn)) (py (position ?pawn) + pawnDirection (color ?pawn)) (pz (position ?pawn))) = None \<and>
       isValidPosition (mkPos (px (position ?pawn)) (py (position ?pawn) + 2 * pawnDirection (color ?pawn)) (pz (position ?pawn))) \<and>
       getPiece setupBoard (mkPos (px (position ?pawn)) (py (position ?pawn) + 2 * pawnDirection (color ?pawn)) (pz (position ?pawn))) = None)"
    by blast
  then have b: "\<exists>ms. getValidMoves ?pawn setupBoard = Some ms \<and> mkPos 1 4 1 \<in> set ms"
    by (simp add: pawnDirection_def setupBoard_list)
  from inst a have "\<exists>q ms. getPiece (board ?g') (mkPos 1 4 1) = Some q \<and> ptype q = PAWN \<and> color q = WHITE \<and>
          position q = mkPos 1 4 1 \<and> hasMoved q = Some True \<and> getValidMoves q (board ?g') = Some ms \<and>
          mkPos (px (mkPos 1 4 1)) (py (mkPos 1 4 1) + 2) (pz (mkPos 1 4 1)) \<notin> set ms"
    by blast
  then have c: "\<exists>q ms. getPiece (board ?g') (mkPos 1 4 1) = Some q \<and> hasMoved q = Some True \<and>
      getValidMoves q (board ?g') = Some ms \<and> mkPos 1 6 1 \<notin> set ms"
    by (simp only: mkPos_sel) auto
  from p b a c show ?thesis by blast
qed

section \<open>Kings can be captured\<close>

text \<open>
  Claim C1 says that no sequence of accepted \<open>makeMove\<close> calls ever removes a king.
  \<open>makeMove\<close> accepts every destination that \<open>getValidMoves\<close> offers, the generators
  offer every square held by an opponent piece, a king included, and nothing makes a side
  answer a check. From the initial game: the White queen goes (4,1,1) to (4,1,2), a Black
  pawn (1,7,1) to (1,6,1), the queen on to (4,8,2), from where it attacks the Black king
  on (5,8,1) along the direction (1,0,-1); the pawn goes on to (1,5,1), and the queen
  takes the king. All five calls return true; afterwards the White king is on the board
  and the Black king is not.
\<close>

theorem king_capture_counterexample:
  "map_option kingsOnBoard
     (playMoves createGame
        [(mkPos 4 1 1, mkPos 4 1 2), (mkPos 1 7 1, mkPos 1 6 1), (mkPos 4 1 2, mkPos 4 8 2),
         (mkPos 1 6 1, mkPos 1 5 1), (mkPos 4 8 2, mkPos 5 8 1)])
   = Some (True, False)"
proof -
  let ?Q0 = "mkPiece QUEEN WHITE 4 1 1 None"
  let ?Q1 = "relocated ?Q0 (mkPos 4 1 2)"
  let ?Q2 = "relocated ?Q1 (mkPos 4 8 2)"
  let ?P0 = "mkPiece PAWN BLACK 1 7 1 (Some False)"
  let ?P1 = "relocated ?P0 (mkPos 1 6 1)"
  let ?g1 = "afterMove createGame (mkPos 4 1 1) (mkPos 4 1 2) ?Q0"
  let ?g2 = "afterMove ?g1 (mkPos 1 7 1) (mkPos 1 6 1) ?P0"
  let ?g3 = "afterMove ?g2 (mkPos 4 1 2) (mkPos 4 8 2) ?Q1"
  let ?g4 = "afterMove ?g3 (mkPos 1 6 1) (mkPos 1 5 1) ?P1"
  let ?g5 = "afterMove ?g4 (mkPos 4 8 2) (mkPos 5 8 1) ?Q2"
  have st: "\<And>g from to pc. state (afterMove g from to pc)
      = specState (board (afterMove g from to pc)) (currentTurn (afterMove g from to pc))"
    by simp
  have s1: "makeMove createGame (mkPos 4 1 1) (mkPos 4 1 2) = Some (True, ?g1)"
  proof (rule playMoves_step)
    show "getPiece (board createGame) (mkPos 4 1 1) = Some ?Q0" by (simp add: setupBoard_list)
    show "color ?Q0 = currentTurn createGame" by simp
    have "mkPos 4 1 2 \<in> set (raySquares (position ?Q0) (mkPos 0 0 1) (board createGame) (color ?Q0))"
      by (simp add: raySquares_mkPos setupBoard_list)
    then show "mkPos 4 1 2 \<in> legalDestinations ?Q0 (board createGame)"
      by (intro rook_ray_destination [of _ "mkPos 0 0 1"]) (simp_all add: rookDirections_def)
    show "state createGame = ACTIVE \<or> state createGame = specState (board createGame) (currentTurn createGame)"
      by simp
  qed
  have s2: "makeMove ?g1 (mkPos 1 7 1) (mkPos 1 6 1) = Some (True, ?g2)"
  proof (rule playMoves_step)
    show "getPiece (board ?g1) (mkPos 1 7 1) = Some ?P0"
      by (simp add: setupBoard_list movePiece_board_eq)
    show "color ?P0 = currentTurn ?g1" by (simp add: opponentOf_def)
    have "mkPos 1 6 1 \<in> set (getPawnMoves ?P0 (board ?g1))"
      by (simp add: getPawnMoves_iff Let_def pawnDirection_def setupBoard_list movePiece_board_eq)
    then show "mkPos 1 6 1 \<in> legalDestinations ?P0 (board ?g1)"
      by (intro pawn_destination) simp_all
    show "state ?g1 = ACTIVE \<or> state ?g1 = specState (board ?g1) (currentTurn ?g1)"
      using st by blast
  qed
  have s3: "makeMove ?g2 (mkPos 4 1 2) (mkPos 4 8 2) = Some (True, ?g3)"
  proof (rule playMoves_step)
    show "getPiece (board ?g2) (mkPos 4 1 2) = Some ?Q1"
      by (simp add: setupBoard_list movePiece_board_eq)
    show "color ?Q1 = currentTurn ?g2" by (simp add: opponentOf_def)
    have "mkPos 4 8 2 \<in> set (raySquares (position ?Q1) (mkPos 0 1 0) (board ?g2) (color ?Q1))"
      by (simp add: raySquares_mkPos setupBoard_list movePiece_board_eq)
    then show "mkPos 4 8 2 \<in> legalDestinations ?Q1 (board ?g2)"
      by (intro rook_ray_destination [of _ "mkPos 0 1 0"]) (simp_all add: rookDirections_def)
    show "state ?g2 = ACTIVE \<or> state ?g2 = specState (board ?g2) (currentTurn ?g2)"
      using st by blast
  qed
  have s4: "makeMove ?g3 (mkPos 1 6 1) (mkPos 1 5 1) = Some (True, ?g4)"
  proof (rule playMoves_step)
    show "getPiece (board ?g3) (mkPos 1 6 1) = Some ?P1"
      by (simp add: setupBoard_list movePiece_board_eq)
    show "color ?P1 = currentTurn ?g3" by (simp add: opponentOf_def)
    have "mkPos 1 5 1 \<in> set (getPawnMoves ?P1 (board ?g3))"
      by (simp add: getPawnMoves_iff Let_def pawnDirection_def setupBoard_list movePiece_board_eq)
    then show "mkPos 1 5 1 \<in> legalDestinations ?P1 (board ?g3)"
      by (intro pawn_destination) simp_all
    show "state ?g3 = ACTIVE \<or> state ?g3 = specState (board ?g3) (currentTurn ?g3)"
      using st by blast
  qed
  have s5: "makeMove ?g4 (mkPos 4 8 2) (mkPos 5 8 1) = Some (True, ?g5)"
  proof (rule playMoves_step)
    show "getPiece (board ?g4) (mkPos 4 8 2) = Some ?Q2"
      by (simp add: setupBoard_list movePiece_board_eq)
    show "color ?Q2 = currentTurn ?g4" by (simp add: opponentOf_def)
    have "mkPos 5 8 1 \<in> set (raySquares (position ?Q2) (mkPos 1 0 (- 1)) (board ?g4) (color ?Q2))"
      by (simp add: raySquares_mkPos setupBoard_list movePiece_board_eq)
    then show "mkPos 5 8 1 \<in> legalDestinations ?Q2 (board ?g4)"
      by (intro bishop_ray_destination [of _ "mkPos 1 0 (- 1)"]) (simp_all add: bishopDirections_def)
    show "state ?g4 = ACTIVE \<or> state ?g4 = specState (board ?g4) (currentTurn ?g4)"
      using st by blast
  qed
  have k: "kingsOnBoard ?g5 = (True, False)"
    by (simp add: kingsOnBoard_def hasKing_def setupBoard_list movePiece_board_eq)
  show ?thesis
    by (simp only: playMoves.simps s1 s2 s3 s4 s5 option.case prod.case bool.case k option.map)
qed

text \<open>
  Claim C1, amended. Starting from the initialized game, along every sequence of accepted
  \<open>makeMove\<close> calls none of which lands on a square that holds a king, no king is
  removed: in every game state so reached both the White king and the Black king are on
  the board.
\<close>

theorem kings_survive_sparing_moves:
  "kingSparing g \<Longrightarrow> kingsOnBoard g = (True, True)"
  by (simp add: kingsOnBoard_def kingSparing_invariant)

theorem kings_survive_sparing_moves_witness:
  "kingSparing (afterMove createGame (mkPos 1 2 1) (mkPos 1 4 1) (mkPiece PAWN WHITE 1 2 1 (Some False))) \<and>
   kingsOnBoard (afterMove createGame (mkPos 1 2 1) (mkPos 1 4 1) (mkPiece PAWN WHITE 1 2 1 (Some False)))
     = (True, True)"
proof -
  let ?g' = "afterMove createGame (mkPos 1 2 1) (mkPos 1 4 1) (mkPiece PAWN WHITE 1 2 1 (Some False))"
  have a: "makeMove createGame (mkPos 1 2 1) (mkPos 1 4 1) = Some (True, ?g')"
    by (rule setup_a_pawn_accept) simp
  have sp: "\<forall>q. getPiece (board createGame) (mkPos 1 4 1) = Some q \<longrightarrow> ptype q \<noteq> KING"
    by (simp add: setupBoard_list)
  have ks: "kingSparing ?g'"
    by (rule kingSparing.step [OF kingSparing.start a sp])
  from ks kings_survive_sparing_moves [OF ks] show ?thesis by (rule conjI)
qed

end
